theory Spec2Isabelle
  imports Complex_Main
begin

section \<open>Data model of \<open>textRenderer.ts\<close>\<close>

text \<open>
  A JavaScript \<open>number\<close> is modelled as a real: the arithmetic of the layout (sums,
  maxima, one division by two) is exact here, rounding of doubles and the values
  \<open>NaN\<close> and \<open>Infinity\<close> are left out.

  Text that is iterated with \<open>for (const character of token.content)\<close> is a list
  of Unicode code points, one list element per iteration of that loop; a one-character
  string such as \<open>IDrawCharacterItem.character\<close> is such a list too. Names (fonts,
  colours, command names) are only compared and stored, they are plain strings.
\<close>

type_synonym codepoint = nat
type_synonym jsstring = "codepoint list"

record ITextStyle =
  fontName :: string
  fontSize :: real
  isBold :: bool
  isUnderlined :: bool
  isStrikethrough :: bool
  isItalic :: bool
  color :: string
  strokeWidth :: real
  strokeColor :: string
  letterSpacing :: real
  lineSpacing :: real
  alpha :: real

text \<open>
  The code compares styles by reference (\<open>part.style !== currentStyle\<close>,
  \<open>textStyle !== lastStyle\<close>). A style object is therefore an address into a store
  of style objects; two addresses are the same object iff they are equal.
\<close>

type_synonym style_ref = nat
type_synonym style_heap = "style_ref \<Rightarrow> ITextStyle"

text \<open>
  \<open>RenderItem = IDrawCharacterItem | INewlineItem\<close>. Both variants carry the fields of
  \<open>ITextRenderItem\<close>; \<open>character\<close> and \<open>style\<close> exist on the character variant only.
\<close>

datatype RenderItem =
    is_Character: Character (item_x: real) (item_y: real) (item_height: real) (item_width: real)
              (item_character: jsstring) (item_style: style_ref)
  | is_Newline: Newline (item_x: real) (item_y: real) (item_height: real) (item_width: real)

text \<open>
  Modelled from the spec: the token types are declared in \<open>./tokenizer\<close>, which is
  not among the sources. A token is a text run, a newline marker, a command-open token
  (command name, optional argument, position) or a command-close token (command name,
  position); these are also the variants and fields that \<open>getRenderParts\<close> reads.
\<close>

record ICommandToken =
  commandName :: string
  argument :: "string option"
  pos :: nat

datatype Token =
    CommandTok ICommandToken
  | CommandCloseTok string nat
  | NewlineTok
  | TextTok jsstring

text \<open>
  Operations issued on a \<open>CanvasRenderingContext2D\<close>. A canvas is the sequence of
  operations issued on it so far, oldest first. The font string
  \<open>(italic ? 'italic ' : '') + (bold ? 'bold ' : '') + fontSize + 'px ' + fontName\<close>
  is kept as its four components.
\<close>

datatype ctx_op =
    Save
  | Restore
  | SetTextAlign string
  | SetFont bool bool real string
  | SetLineJoin string
  | SetStrokeStyle string
  | SetLineWidth real
  | SetGlobalAlpha real
  | SetFillStyle string
  | StrokeText jsstring real real
  | FillText jsstring real real

type_synonym canvas = "ctx_op list"

text \<open>
  Modelled from the spec: the command registry \<open>./textCommands\<close> is not among the
  sources. It maps a command name to a function from the current style and an argument
  to a style. A command may return a new style object, so here it maps a store and an
  address to a store and an address. It is a parameter of the model, as are the width
  \<open>ctx.measureText(character).width\<close> of a text on a canvas and the
  \<open>offsetHeight\<close> of the probe \<open>div\<close> for a font family and a font size.
\<close>

type_synonym command = "style_heap \<Rightarrow> style_ref \<Rightarrow> string option \<Rightarrow> style_heap \<times> style_ref"

record platform =
  textCommands :: "string \<rightharpoonup> command"
  measureText :: "canvas \<Rightarrow> jsstring \<Rightarrow> real"
  offsetHeight :: "string \<Rightarrow> real \<Rightarrow> real"

text \<open>
  The module-level state: the store of style objects, \<open>tmpContext\<close>, \<open>lastStyle\<close>,
  \<open>heightCache\<close>, and a log of the probes \<open>measureHeight\<close> has appended to the
  document (one entry per read of \<open>div.offsetHeight\<close>).

  The key \<open>fontSize + ' ' + fontName\<close> of \<open>heightCache\<close> is kept as the pair of its
  components: the text of a number holds no blank, so the string determines both.
\<close>

type_synonym font_key = "real \<times> string"

record world =
  styles :: style_heap
  tmpContext :: canvas
  lastStyle :: "style_ref option"
  heightCache :: "font_key \<rightharpoonup> real"
  probes :: "font_key list"

section \<open>Metrics\<close>

definition applyTextStyleToCanvas :: "ITextStyle \<Rightarrow> canvas \<Rightarrow> canvas" where
  "applyTextStyleToCanvas style ctx =
     ctx @ [SetTextAlign ''left'',
            SetFont (isItalic style) (isBold style) (fontSize style) (fontName style),
            SetLineJoin ''round'']
         @ (if strokeWidth style > 0 \<and> strokeColor style \<noteq> ''''
            then [SetStrokeStyle (strokeColor style), SetLineWidth (strokeWidth style)]
            else [SetStrokeStyle '''', SetLineWidth 0])
         @ [SetGlobalAlpha (if alpha style = 0 then 0 else alpha style),
            SetFillStyle (color style)]"

definition measureWidth :: "platform \<Rightarrow> world \<Rightarrow> style_ref \<Rightarrow> jsstring \<Rightarrow> real \<times> world" where
  "measureWidth P w textStyle character =
     (let w' = (if Some textStyle \<noteq> lastStyle w
                then w\<lparr>tmpContext := applyTextStyleToCanvas (styles w textStyle) (tmpContext w),
                       lastStyle := Some textStyle\<rparr>
                else w)
      in (measureText P (tmpContext w') character, w'))"

definition font_of :: "ITextStyle \<Rightarrow> font_key" where
  "font_of textStyle = (fontSize textStyle, fontName textStyle)"

definition measureHeight :: "platform \<Rightarrow> world \<Rightarrow> style_ref \<Rightarrow> real \<times> world" where
  "measureHeight P w textStyle =
     (let st = styles w textStyle; font = font_of st in
      case heightCache w font of
        Some cached \<Rightarrow> (cached * lineSpacing st, w)
      | None \<Rightarrow>
          (let height = offsetHeight P (fontName st) (fontSize st) in
           (height * lineSpacing st,
            w\<lparr>heightCache := (heightCache w)(font \<mapsto> height),
              probes := probes w @ [font]\<rparr>)))"

section \<open>Interpretation of the token sequence\<close>

text \<open>
  The three \<open>throw new Error(...)\<close> of \<open>getRenderParts\<close>, each with the values its
  message is built from. \<open>EmptyStack\<close> stands for \<open>pop()\<close> on an empty stack
  (which would leave \<open>undefined\<close> as the current style); the code never gets there,
  since a tag is current only after a push, see \<open>getRenderParts_no_EmptyStack\<close>.
\<close>

datatype error =
    UnknownCommand string nat
  | UnmatchedClose nat string
  | MismatchedClose nat string ICommandToken
  | EmptyStack

text \<open>The local variables of \<open>getRenderParts\<close>. The top of a stack is the head of its list.\<close>

record interp =
  renderParts :: "RenderItem list"
  styleStack :: "style_ref list"
  tagStack :: "ICommandToken option list"
  currentStyleHeight :: real
  currentStyle :: style_ref
  currentTag :: "ICommandToken option"

text \<open>The body of \<open>case 'text'\<close>: one item per character of the run.\<close>

fun text_loop :: "platform \<Rightarrow> style_ref \<Rightarrow> real \<Rightarrow> world \<times> RenderItem list \<Rightarrow> jsstring
    \<Rightarrow> world \<times> RenderItem list" where
  "text_loop P st h (w, parts) [] = (w, parts)"
| "text_loop P st h (w, parts) (c # cs) =
     (let (wd, w') = measureWidth P w st [c]
      in text_loop P st h (w', parts @ [Character 0 0 h wd [c] st]) cs)"

text \<open>One iteration of \<open>for (const token of tokens)\<close>.\<close>

fun step :: "platform \<Rightarrow> world \<times> interp \<Rightarrow> Token \<Rightarrow> error + world \<times> interp" where
  "step P (w, s) (CommandTok token) =
     (case textCommands P (commandName token) of
        Some cmd \<Rightarrow>
          (let (heap', newStyle) = cmd (styles w) (currentStyle s) (argument token);
               (height, w') = measureHeight P (w\<lparr>styles := heap'\<rparr>) newStyle
           in Inr (w', s\<lparr>styleStack := currentStyle s # styleStack s,
                          tagStack := currentTag s # tagStack s,
                          currentStyle := newStyle,
                          currentStyleHeight := height,
                          currentTag := Some token\<rparr>))
      | None \<Rightarrow> Inl (UnknownCommand (commandName token) (pos token)))"
| "step P (w, s) (CommandCloseTok name p) =
     (case currentTag s of
        None \<Rightarrow> Inl (UnmatchedClose p name)
      | Some tag \<Rightarrow>
          if name \<noteq> commandName tag then Inl (MismatchedClose p name tag)
          else (case (tagStack s, styleStack s) of
                  (t # ts, st # sts) \<Rightarrow>
                    Inr (w, s\<lparr>currentTag := t, tagStack := ts,
                               currentStyle := st, styleStack := sts\<rparr>)
                | _ \<Rightarrow> Inl EmptyStack))"
| "step P (w, s) NewlineTok =
     Inr (w, s\<lparr>renderParts := renderParts s @ [Newline 0 0 (currentStyleHeight s) 0]\<rparr>)"
| "step P (w, s) (TextTok content) =
     (let (w', parts) = text_loop P (currentStyle s) (currentStyleHeight s) (w, renderParts s) content
      in Inr (w', s\<lparr>renderParts := parts\<rparr>))"

fun token_loop :: "platform \<Rightarrow> world \<times> interp \<Rightarrow> Token list \<Rightarrow> error + world \<times> interp" where
  "token_loop P ws [] = Inr ws"
| "token_loop P ws (token # tokens) =
     (case step P ws token of
        Inl e \<Rightarrow> Inl e
      | Inr ws' \<Rightarrow> token_loop P ws' tokens)"

definition initial_interp :: "real \<Rightarrow> style_ref \<Rightarrow> interp" where
  "initial_interp h baseStyle =
     \<lparr>renderParts = [], styleStack = [], tagStack = [],
      currentStyleHeight = h, currentStyle = baseStyle, currentTag = None\<rparr>"

definition getRenderParts :: "platform \<Rightarrow> world \<Rightarrow> Token list \<Rightarrow> style_ref
    \<Rightarrow> error + world \<times> RenderItem list" where
  "getRenderParts P w tokens baseStyle =
     (let (h, w0) = measureHeight P w baseStyle in
      case token_loop P (w0, initial_interp h baseStyle) tokens of
        Inl e \<Rightarrow> Inl e
      | Inr (w', s) \<Rightarrow> Inr (w', renderParts s))"

subsection \<open>Well-formed token sequences\<close>

text \<open>
  The names of the commands that are open after a token sequence, innermost first, when
  every close token names the innermost open command; \<open>None\<close> when some close token
  does not. A sequence is balanced when it leaves no command open.
\<close>

fun open_commands :: "string list \<Rightarrow> Token list \<Rightarrow> string list option" where
  "open_commands opened [] = Some opened"
| "open_commands opened (CommandTok token # tokens) =
     open_commands (commandName token # opened) tokens"
| "open_commands opened (CommandCloseTok name p # tokens) =
     (case opened of
        [] \<Rightarrow> None
      | n # ns \<Rightarrow> if name = n then open_commands ns tokens else None)"
| "open_commands opened (NewlineTok # tokens) = open_commands opened tokens"
| "open_commands opened (TextTok content # tokens) = open_commands opened tokens"

definition balanced :: "Token list \<Rightarrow> bool" where
  "balanced tokens \<longleftrightarrow> open_commands [] tokens = Some []"

fun registered :: "platform \<Rightarrow> Token \<Rightarrow> bool" where
  "registered P (CommandTok token) = (textCommands P (commandName token) \<noteq> None)"
| "registered P _ = True"

text \<open>
  Modelled from the spec: the tokenizer is not among the sources. It turns each line
  break of the markup into a newline token, so a text run of its output holds no line
  feed.
\<close>

definition lineFeed :: codepoint where
  "lineFeed = 10"

fun tokenized :: "Token \<Rightarrow> bool" where
  "tokenized (TextTok content) = (lineFeed \<notin> set content)"
| "tokenized _ = True"

text \<open>What a document shows: its characters and its line breaks, in order.\<close>

datatype glyph = Glyph jsstring | Break

fun token_glyphs :: "Token \<Rightarrow> glyph list" where
  "token_glyphs (TextTok content) = map (\<lambda>c. Glyph [c]) (filter (\<lambda>c. c \<noteq> lineFeed) content)"
| "token_glyphs NewlineTok = [Break]"
| "token_glyphs _ = []"

definition document_glyphs :: "Token list \<Rightarrow> glyph list" where
  "document_glyphs tokens = concat (map token_glyphs tokens)"

fun item_glyph :: "RenderItem \<Rightarrow> glyph" where
  "item_glyph (Character x y h wd c st) = Glyph c"
| "item_glyph (Newline x y h wd) = Break"

definition unplaced :: "RenderItem \<Rightarrow> bool" where
  "unplaced item \<longleftrightarrow> item_x item = 0 \<and> item_y item = 0"

text \<open>
  The shape of the tag stack at every point of the loop: below the current tag lie the
  tags that were current before, and \<open>null\<close> lies at the bottom and nowhere else; the
  two stacks have one length.
\<close>

definition well_stacked :: "interp \<Rightarrow> bool" where
  "well_stacked s \<longleftrightarrow>
     last (currentTag s # tagStack s) = None
     \<and> list_all (\<lambda>t. t \<noteq> None) (butlast (currentTag s # tagStack s))
     \<and> length (styleStack s) = length (tagStack s)"

section \<open>Quoting\<close>

text \<open>
  \<open>part.character.match(/\s/)\<close>: some position of the string holds a white space
  or line terminator character (tab, line feed, vertical tab, form feed, carriage
  return, space, no-break space, U+1680, U+2000 to U+200A, U+2028, U+2029, U+202F,
  U+205F, U+3000, U+FEFF).
\<close>

definition is_whitespace :: "codepoint \<Rightarrow> bool" where
  "is_whitespace c \<longleftrightarrow>
     c \<in> set [9, 10, 11, 12, 13, 32, 160, 5760, 8232, 8233, 8239, 8287, 12288, 65279]
     \<or> (8192 \<le> c \<and> c \<le> 8202)"

definition matches_whitespace :: "jsstring \<Rightarrow> bool" where
  "matches_whitespace str = list_ex is_whitespace str"

definition quotationMark :: jsstring where
  "quotationMark = [34]"

text \<open>\<open>renderParts.splice(i, 0, item)\<close>.\<close>

definition splice_in :: "nat \<Rightarrow> 'a \<Rightarrow> 'a list \<Rightarrow> 'a list" where
  "splice_in i item parts = take i parts @ [item] @ drop i parts"

text \<open>An item the first loop of \<open>quote\<close> does not skip.\<close>

definition visible :: "RenderItem \<Rightarrow> bool" where
  "visible part \<longleftrightarrow> is_Character part \<and> \<not> matches_whitespace (item_character part)"

text \<open>
  The first loop of \<open>quote\<close>, from index \<open>i\<close> on. The array grows by one when the
  opening mark is spliced in, and \<open>renderParts.length\<close> is read again in every round.
\<close>

function quote_loop :: "platform \<Rightarrow> nat \<Rightarrow> int \<Rightarrow> bool \<Rightarrow> world \<times> RenderItem list
    \<Rightarrow> (int \<times> bool) \<times> world \<times> RenderItem list" where
  "quote_loop P i lastChar quoted (w, parts) =
     (if i < length parts then
        (if \<not> is_Character (parts ! i) then quote_loop P (i + 1) lastChar quoted (w, parts)
         else if matches_whitespace (item_character (parts ! i))
           then quote_loop P (i + 1) lastChar quoted (w, parts)
         else if \<not> quoted then
           quote_loop P (i + 1) (int i) True
             (snd (measureWidth P w (item_style (parts ! i)) quotationMark),
              splice_in i
                (Character 0 0 (item_height (parts ! i))
                   (fst (measureWidth P w (item_style (parts ! i)) quotationMark))
                   quotationMark (item_style (parts ! i)))
                parts)
         else quote_loop P (i + 1) (int i) quoted (w, parts))
      else ((lastChar, quoted), w, parts))"
  by pat_completeness auto
termination
  by (relation "measure (\<lambda>(P, i, lastChar, quoted, w, parts).
        (length parts - i) + (if quoted then 0 else 1))")
     (auto simp: splice_in_def)

declare quote_loop.simps [simp del]

definition quote :: "platform \<Rightarrow> world \<times> RenderItem list \<Rightarrow> world \<times> RenderItem list" where
  "quote P wp =
     (case quote_loop P 0 (- 1) False wp of
        ((lastChar, quoted), w, parts) \<Rightarrow>
          if quoted \<and> lastChar \<ge> 0 then
            (let part = parts ! nat lastChar;
                 (wd, w') = measureWidth P w (item_style part) quotationMark
             in (w', splice_in (nat lastChar + 1)
                       (Character 0 0 (item_height part) wd quotationMark (item_style part))
                       parts))
          else (w, parts))"

text \<open>The quotation mark that \<open>quote\<close> puts next to an item, in a given module state.\<close>

definition quotationMarkFor :: "platform \<Rightarrow> world \<Rightarrow> RenderItem \<Rightarrow> RenderItem" where
  "quotationMarkFor P w part =
     Character 0 0 (item_height part)
       (fst (measureWidth P w (item_style part) quotationMark))
       quotationMark (item_style part)"

section \<open>Alignment\<close>

datatype alignment = AlignLeft | AlignCenter | AlignRight

fun set_x :: "real \<Rightarrow> RenderItem \<Rightarrow> RenderItem" where
  "set_x v (Character x y h wd c st) = Character v y h wd c st"
| "set_x v (Newline x y h wd) = Newline v y h wd"

fun set_y :: "real \<Rightarrow> RenderItem \<Rightarrow> RenderItem" where
  "set_y v (Character x y h wd c st) = Character x v h wd c st"
| "set_y v (Newline x y h wd) = Newline x v h wd"

fun set_width :: "real \<Rightarrow> RenderItem \<Rightarrow> RenderItem" where
  "set_width v (Character x y h wd c st) = Character x y h v c st"
| "set_width v (Newline x y h wd) = Newline x y h v"

text \<open>The loop of \<open>fixLine\<close>: \<open>item.x = x; x += item.width\<close>.\<close>

fun place :: "real \<Rightarrow> RenderItem list \<Rightarrow> RenderItem list" where
  "place x [] = []"
| "place x (item # rest) = set_x x item # place (x + item_width item) rest"

definition fixLine :: "alignment \<Rightarrow> real \<Rightarrow> real \<Rightarrow> real \<Rightarrow> RenderItem list \<Rightarrow> RenderItem list" where
  "fixLine align xStart xEnd lineWidth currentLine =
     place (case align of
              AlignLeft \<Rightarrow> xStart
            | AlignCenter \<Rightarrow> xStart + (xEnd - xStart) / 2 - lineWidth / 2
            | AlignRight \<Rightarrow> xEnd - lineWidth)
       currentLine"

text \<open>
  The first loop of \<open>fixAlignment\<close>: the running \<open>lineHeight\<close> and the
  \<open>lineHeights\<close> pushed so far.
\<close>

fun heights_loop :: "real \<times> real list \<Rightarrow> RenderItem list \<Rightarrow> real \<times> real list" where
  "heights_loop (lineHeight, lineHeights) [] = (lineHeight, lineHeights)"
| "heights_loop (lineHeight, lineHeights) (item # rest) =
     (let lineHeight' = max lineHeight (item_height item) in
      if is_Newline item
      then heights_loop (lineHeight', lineHeights @ [lineHeight']) rest
      else heights_loop (lineHeight', lineHeights) rest)"

text \<open>\<open>lineHeights[i] || 0\<close>: a read past the end is \<open>undefined\<close>, which gives 0.\<close>

definition height_or_zero :: "real list \<Rightarrow> nat \<Rightarrow> real" where
  "height_or_zero lineHeights i =
     (if i < length lineHeights \<and> lineHeights ! i \<noteq> 0 then lineHeights ! i else 0)"

text \<open>
  The second loop of \<open>fixAlignment\<close>. The items are objects shared between
  \<open>renderParts\<close> and \<open>currentLine\<close>, and every object occurs once in
  \<open>renderParts\<close>; the state keeps the items of the lines already fixed (\<open>fixed\<close>)
  and the items of the current line, and the result is \<open>renderParts\<close> after the loop and
  the last call of \<open>fixLine\<close>.
\<close>

record align_state =
  fixed :: "RenderItem list"
  currentLine :: "RenderItem list"
  lineWidth :: real
  lineHeight :: real
  cursorY :: real
  line :: nat

fun align_loop :: "style_heap \<Rightarrow> alignment \<Rightarrow> real \<Rightarrow> real \<Rightarrow> real list \<Rightarrow> align_state
    \<Rightarrow> RenderItem list \<Rightarrow> RenderItem list" where
  "align_loop heap align xStart xEnd lineHeights a [] =
     fixed a @ fixLine align xStart xEnd (lineWidth a) (currentLine a)"
| "align_loop heap align xStart xEnd lineHeights a (item # rest) =
     (let lineHeight1 = max (lineHeight a) (item_height item);
          item1 = set_y (cursorY a) item;
          currentLine1 = currentLine a @ [item1];
          lineWidth1 = lineWidth a + item_width item1
      in
      if is_Newline item1 then
        align_loop heap align xStart xEnd lineHeights
          \<lparr>fixed = fixed a @ fixLine align xStart xEnd lineWidth1 currentLine1,
           currentLine = [],
           lineWidth = 0,
           lineHeight = 0,
           cursorY = cursorY a + height_or_zero lineHeights (line a + 1),
           line = line a + 1\<rparr> rest
      else
        (let lastItem = currentLine1 ! (length currentLine1 - 1) in
         if is_Character lastItem then
           align_loop heap align xStart xEnd lineHeights
             (a\<lparr>currentLine :=
                   currentLine1[length currentLine1 - 1 :=
                     set_width (item_width lastItem + letterSpacing (heap (item_style lastItem)))
                       lastItem],
                lineWidth := lineWidth1 + letterSpacing (heap (item_style lastItem)),
                lineHeight := lineHeight1\<rparr>) rest
         else
           align_loop heap align xStart xEnd lineHeights
             (a\<lparr>currentLine := currentLine1, lineWidth := lineWidth1,
                lineHeight := lineHeight1\<rparr>) rest))"

definition lineHeights_of :: "RenderItem list \<Rightarrow> real list" where
  "lineHeights_of parts =
     (case heights_loop (0, []) parts of (lastHeight, lineHeights) \<Rightarrow> lineHeights @ [lastHeight])"

definition fixAlignment :: "style_heap \<Rightarrow> alignment \<Rightarrow> real \<Rightarrow> real \<Rightarrow> real \<Rightarrow> RenderItem list
    \<Rightarrow> RenderItem list" where
  "fixAlignment heap align xStart xEnd yStart parts =
     align_loop heap align xStart xEnd (lineHeights_of parts)
       \<lparr>fixed = [], currentLine = [], lineWidth = 0,
        lineHeight = fst (heights_loop (0, []) parts),
        cursorY = yStart, line = 0\<rparr> parts"

subsection \<open>What the alignment is expected to give\<close>

text \<open>The width of an item after the second loop has added the letter spacing.\<close>

definition spaced_width :: "style_heap \<Rightarrow> RenderItem \<Rightarrow> real" where
  "spaced_width heap part =
     (if is_Character part then item_width part + letterSpacing (heap (item_style part))
      else item_width part)"

text \<open>An item that the second loop does not widen.\<close>

definition unspaced :: "style_heap \<Rightarrow> RenderItem \<Rightarrow> bool" where
  "unspaced heap part \<longleftrightarrow>
     (if is_Character part then letterSpacing (heap (item_style part)) = 0 else True)"

text \<open>A single line: no line break, except possibly as the last item.\<close>

definition single_line :: "RenderItem list \<Rightarrow> bool" where
  "single_line parts \<longleftrightarrow> list_all is_Character (butlast parts)"

text \<open>Where a line of a given width starts.\<close>

definition line_start :: "alignment \<Rightarrow> real \<Rightarrow> real \<Rightarrow> real \<Rightarrow> real" where
  "line_start align xStart xEnd width =
     (case align of
        AlignLeft \<Rightarrow> xStart
      | AlignCenter \<Rightarrow> xStart + (xEnd - xStart) / 2 - width / 2
      | AlignRight \<Rightarrow> xEnd - width)"

text \<open>A running cursor: every width advances it.\<close>

fun cursor_positions :: "real \<Rightarrow> real list \<Rightarrow> real list" where
  "cursor_positions x [] = []"
| "cursor_positions x (wd # wds) = x # cursor_positions (x + wd) wds"

text \<open>Every character item is followed, if at all, by an item that starts where its box ends.\<close>

fun chained :: "RenderItem list \<Rightarrow> bool" where
  "chained (a # b # rest) =
     ((if is_Character a then item_x b = item_x a + item_width a else True) \<and> chained (b # rest))"
| "chained _ = True"

text \<open>The number of the line of the item at index \<open>i\<close>: the line breaks before it.\<close>

definition line_index :: "RenderItem list \<Rightarrow> nat \<Rightarrow> nat" where
  "line_index parts i = length (filter is_Newline (take i parts))"

text \<open>
  The lines of the items: a line ends with its line break, and the items after the last
  line break (none, possibly) are the last line.
\<close>

fun lines_of :: "RenderItem list \<Rightarrow> RenderItem list list" where
  "lines_of [] = [[]]"
| "lines_of (item # rest) =
     (if is_Newline item then [item] # lines_of rest
      else (case lines_of rest of
              [] \<Rightarrow> [[item]]
            | l # ls \<Rightarrow> (item # l) # ls))"

text \<open>The greatest item height of a line, counted from 0 as \<open>lineHeight\<close> is.\<close>

definition line_max :: "RenderItem list \<Rightarrow> real" where
  "line_max l = fold max (map item_height l) 0"

text \<open>The x coordinates of a line that is aligned as a whole, by its widened widths.\<close>

definition line_positions :: "style_heap \<Rightarrow> alignment \<Rightarrow> real \<Rightarrow> real \<Rightarrow> RenderItem list
    \<Rightarrow> real list" where
  "line_positions heap align xStart xEnd l =
     cursor_positions
       (line_start align xStart xEnd (sum_list (map (spaced_width heap) l)))
       (map (spaced_width heap) l)"

section \<open>Rendering\<close>

text \<open>The first loop of \<open>render\<close>; the state is \<open>currentStyle\<close> and the canvas.\<close>

fun stroke_loop :: "style_heap \<Rightarrow> style_ref option \<times> canvas \<Rightarrow> RenderItem list
    \<Rightarrow> style_ref option \<times> canvas" where
  "stroke_loop heap (cur, ctx) [] = (cur, ctx)"
| "stroke_loop heap (cur, ctx) (Newline x y h wd # rest) = stroke_loop heap (cur, ctx) rest"
| "stroke_loop heap (cur, ctx) (Character x y h wd c st # rest) =
     (let ctx1 = (if Some st \<noteq> cur then applyTextStyleToCanvas (heap st) ctx else ctx);
          ctx2 = (if strokeWidth (heap st) > 0 \<and> strokeColor (heap st) \<noteq> ''''
                  then ctx1 @ [StrokeText c x y] else ctx1)
      in stroke_loop heap (Some st, ctx2) rest)"

text \<open>The second loop of \<open>render\<close>.\<close>

fun fill_loop :: "style_heap \<Rightarrow> style_ref option \<times> canvas \<Rightarrow> RenderItem list
    \<Rightarrow> style_ref option \<times> canvas" where
  "fill_loop heap (cur, ctx) [] = (cur, ctx)"
| "fill_loop heap (cur, ctx) (Newline x y h wd # rest) = fill_loop heap (cur, ctx) rest"
| "fill_loop heap (cur, ctx) (Character x y h wd c st # rest) =
     (let ctx1 = (if Some st \<noteq> cur then applyTextStyleToCanvas (heap st) ctx else ctx)
      in fill_loop heap (Some st, ctx1 @ [FillText c x y]) rest)"

definition render :: "style_heap \<Rightarrow> RenderItem list \<Rightarrow> canvas \<Rightarrow> canvas" where
  "render heap parts ctx =
     snd (fill_loop heap (stroke_loop heap (None, ctx @ [Save]) parts) parts) @ [Restore]"

text \<open>The draw calls among the operations on a canvas.\<close>

fun is_stroke :: "ctx_op \<Rightarrow> bool" where
  "is_stroke (StrokeText c x y) = True"
| "is_stroke _ = False"

fun is_fill :: "ctx_op \<Rightarrow> bool" where
  "is_fill (FillText c x y) = True"
| "is_fill _ = False"

definition draw_calls :: "canvas \<Rightarrow> ctx_op list" where
  "draw_calls ctx = filter (\<lambda>op. is_stroke op \<or> is_fill op) ctx"

text \<open>
  What the two loops of \<open>render\<close> are expected to issue: a stroke for a character
  item whose style has a positive stroke width and a stroke colour, a fill for every
  character item, both with the character and the position of the item.
\<close>

definition stroked :: "style_heap \<Rightarrow> RenderItem \<Rightarrow> bool" where
  "stroked heap part \<longleftrightarrow>
     is_Character part \<and> strokeWidth (heap (item_style part)) > 0
       \<and> strokeColor (heap (item_style part)) \<noteq> ''''"

definition stroke_call :: "RenderItem \<Rightarrow> ctx_op" where
  "stroke_call part = StrokeText (item_character part) (item_x part) (item_y part)"

definition fill_call :: "RenderItem \<Rightarrow> ctx_op" where
  "fill_call part = FillText (item_character part) (item_x part) (item_y part)"

section \<open>Example data\<close>

text \<open>
  Three style objects at the addresses 0 (plain), 1 (bold, stroked, double line spacing)
  and 2 (italic, letter spacing 5), all of one font; a registry with the commands
  \<open>b\<close> and \<open>i\<close>; a platform on which every character is 10 wide; and a module state
  whose height cache already holds the font.
\<close>

definition exampleStyle :: ITextStyle where
  "exampleStyle =
     \<lparr>fontName = ''aller'', fontSize = 24, isBold = False, isUnderlined = False,
      isStrikethrough = False, isItalic = False, color = ''white'', strokeWidth = 0,
      strokeColor = '''', letterSpacing = 0, lineSpacing = 1, alpha = 1\<rparr>"

definition exampleHeap :: style_heap where
  "exampleHeap = (\<lambda>r. exampleStyle)
     (1 := exampleStyle\<lparr>isBold := True, strokeWidth := 4, strokeColor := ''black'',
                         lineSpacing := 2\<rparr>,
      2 := exampleStyle\<lparr>isItalic := True, letterSpacing := 5\<rparr>)"

definition examplePlatform :: platform where
  "examplePlatform =
     \<lparr>textCommands = [''b'' \<mapsto> (\<lambda>heap st arg. (heap, 1)), ''i'' \<mapsto> (\<lambda>heap st arg. (heap, 2))],
      measureText = (\<lambda>ctx str. 10),
      offsetHeight = (\<lambda>family size. size)\<rparr>"

definition exampleWorld :: world where
  "exampleWorld =
     \<lparr>styles = exampleHeap, tmpContext = [], lastStyle = None,
      heightCache = [(24, ''aller'') \<mapsto> 30], probes = [(24, ''aller'')]\<rparr>"

definition openTag :: "string \<Rightarrow> nat \<Rightarrow> Token" where
  "openTag name p = CommandTok \<lparr>commandName = name, argument = None, pos = p\<rparr>"

text \<open>The tokens of \<open>Hel<b>lo</b>\<close>, a line break, \<open>World\<close>.\<close>

definition exampleTokens :: "Token list" where
  "exampleTokens =
     [TextTok [72, 101, 108], openTag ''b'' 3, TextTok [108, 111], CommandCloseTok ''b'' 8,
      NewlineTok, TextTok [87, 111, 114, 108, 100]]"

text \<open>
  Items as \<open>getRenderParts\<close> makes them: two characters with letter spacing 5; two
  lines of increasing height with an empty line between them; a line of height 10 and
  a line of height 20; and a text with white space around and inside it.
\<close>

definition spacedPair :: "RenderItem list" where
  "spacedPair = [Character 0 0 30 10 [72] 2, Character 0 0 30 10 [105] 2]"

definition spacedLines :: "RenderItem list" where
  "spacedLines = Character 0 0 30 10 [97] 0 # Newline 0 0 30 0 # spacedPair"

definition steppedLines :: "RenderItem list" where
  "steppedLines =
     [Character 0 0 10 10 [72] 0, Newline 0 0 10 0, Newline 0 0 20 0,
      Character 0 0 30 10 [105] 0]"

definition risingLines :: "RenderItem list" where
  "risingLines = [Character 0 0 10 10 [72] 0, Newline 0 0 10 0, Character 0 0 20 10 [105] 0]"

definition quotedSample :: "RenderItem list" where
  "quotedSample =
     [Character 0 0 30 10 [32] 0, Newline 0 0 30 0, Character 0 0 60 10 [72] 1,
      Character 0 0 30 10 [32] 0, Character 0 0 30 10 [105] 2, Character 0 0 30 10 [32] 0]"

text \<open>
  A module state in which nothing has been measured yet, with a fourth style object of
  another font size (12, line spacing 3) at address 3; and the state after the height of
  the style at address 1 has been measured in it: the base height 24 of the font is
  cached, one probe is logged.
\<close>

definition coldWorld :: world where
  "coldWorld =
     \<lparr>styles = exampleHeap(3 := exampleStyle\<lparr>fontSize := 12, lineSpacing := 3\<rparr>),
      tmpContext = [], lastStyle = None, heightCache = Map.empty, probes = []\<rparr>"

definition warmWorld :: world where
  "warmWorld = coldWorld\<lparr>heightCache := [(24, ''aller'') \<mapsto> 24], probes := [(24, ''aller'')]\<rparr>"

section \<open>The height cache\<close>

lemma measureWidth_styles: "styles (snd (measureWidth P w st c)) = styles w"
  by (simp add: measureWidth_def Let_def)

lemma measureHeight_styles: "styles (snd (measureHeight P w st)) = styles w"
  by (simp add: measureHeight_def Let_def split: option.splits)

lemma measureHeight_miss:
  assumes "heightCache w (fontSize (styles w a), fontName (styles w a)) = None"
  shows "measureHeight P w a =
     (offsetHeight P (fontName (styles w a)) (fontSize (styles w a)) * lineSpacing (styles w a),
      w\<lparr>heightCache := (heightCache w)
             ((fontSize (styles w a), fontName (styles w a))
                \<mapsto> offsetHeight P (fontName (styles w a)) (fontSize (styles w a))),
        probes := probes w @ [(fontSize (styles w a), fontName (styles w a))]\<rparr>)"
  using assms by (simp add: measureHeight_def font_of_def Let_def)

lemma measureHeight_hit:
  assumes "heightCache w (fontSize (styles w a), fontName (styles w a)) = Some cached"
  shows "measureHeight P w a = (cached * lineSpacing (styles w a), w)"
  using assms by (simp add: measureHeight_def font_of_def)

text \<open>
  C8. The height cache is keyed by font size and font family only, it holds the measured
  base height, and the line spacing is applied after the lookup.
  On a miss \<open>measureHeight\<close> probes once, stores the measured height itself (not
  multiplied) under the size and family of the style and returns it times the line
  spacing of the style. On a hit it returns the cached height times the line spacing of
  the style and leaves the module state as it was: no probe is appended, the cache is
  not written. A style measured after another one of the same size and family, whatever
  its line spacing, weight, slant or stroke, is answered from the entry the first one
  made, without a probe. A style of another size or family is not answered from that
  entry: if its own key is not cached, it is probed.
\<close>

theorem measureHeight_cached:
  assumes "fontSize (styles w b) = fontSize (styles w a)"
    and "fontName (styles w b) = fontName (styles w a)"
  shows
    "(heightCache w (fontSize (styles w a), fontName (styles w a)) = None \<longrightarrow>
        measureHeight P w a =
          (offsetHeight P (fontName (styles w a)) (fontSize (styles w a)) * lineSpacing (styles w a),
           w\<lparr>heightCache := (heightCache w)
                  ((fontSize (styles w a), fontName (styles w a))
                     \<mapsto> offsetHeight P (fontName (styles w a)) (fontSize (styles w a))),
             probes := probes w @ [(fontSize (styles w a), fontName (styles w a))]\<rparr>)
        \<and> measureHeight P (snd (measureHeight P w a)) b =
          (offsetHeight P (fontName (styles w a)) (fontSize (styles w a)) * lineSpacing (styles w b),
           snd (measureHeight P w a)))
     \<and> (heightCache w (fontSize (styles w a), fontName (styles w a)) = Some cached \<longrightarrow>
        measureHeight P w a = (cached * lineSpacing (styles w a), w)
        \<and> measureHeight P w b = (cached * lineSpacing (styles w b), w))
     \<and> ((fontSize (styles w c), fontName (styles w c))
            \<noteq> (fontSize (styles w a), fontName (styles w a))
          \<and> heightCache w (fontSize (styles w c), fontName (styles w c)) = None \<longrightarrow>
        fst (measureHeight P (snd (measureHeight P w a)) c) =
          offsetHeight P (fontName (styles w c)) (fontSize (styles w c)) * lineSpacing (styles w c)
        \<and> probes (snd (measureHeight P (snd (measureHeight P w a)) c)) =
          probes (snd (measureHeight P w a)) @ [(fontSize (styles w c), fontName (styles w c))])"
proof (intro conjI impI)
  assume miss: "heightCache w (fontSize (styles w a), fontName (styles w a)) = None"
  let ?w1 = "snd (measureHeight P w a)"
  show m: "measureHeight P w a =
          (offsetHeight P (fontName (styles w a)) (fontSize (styles w a)) * lineSpacing (styles w a),
           w\<lparr>heightCache := (heightCache w)
                  ((fontSize (styles w a), fontName (styles w a))
                     \<mapsto> offsetHeight P (fontName (styles w a)) (fontSize (styles w a))),
             probes := probes w @ [(fontSize (styles w a), fontName (styles w a))]\<rparr>)"
    by (rule measureHeight_miss [OF miss])
  have s: "styles ?w1 = styles w" by (rule measureHeight_styles)
  have "heightCache ?w1 (fontSize (styles ?w1 b), fontName (styles ?w1 b))
          = Some (offsetHeight P (fontName (styles w a)) (fontSize (styles w a)))"
    unfolding s by (simp add: m assms)
  from measureHeight_hit [OF this]
  show "measureHeight P ?w1 b =
          (offsetHeight P (fontName (styles w a)) (fontSize (styles w a)) * lineSpacing (styles w b),
           ?w1)"
    by (simp add: s)
next
  assume hit: "heightCache w (fontSize (styles w a), fontName (styles w a)) = Some cached"
  show "measureHeight P w a = (cached * lineSpacing (styles w a), w)"
    by (rule measureHeight_hit [OF hit])
  from hit have "heightCache w (fontSize (styles w b), fontName (styles w b)) = Some cached"
    by (simp add: assms)
  then show "measureHeight P w b = (cached * lineSpacing (styles w b), w)"
    by (rule measureHeight_hit)
next
  assume o: "(fontSize (styles w c), fontName (styles w c))
            \<noteq> (fontSize (styles w a), fontName (styles w a))
          \<and> heightCache w (fontSize (styles w c), fontName (styles w c)) = None"
  let ?w1 = "snd (measureHeight P w a)"
  have s: "styles ?w1 = styles w" by (rule measureHeight_styles)
  have "heightCache ?w1 (fontSize (styles w c), fontName (styles w c)) = None"
    using o by (auto simp: measureHeight_def font_of_def Let_def split: option.splits)
  then have "heightCache ?w1 (fontSize (styles ?w1 c), fontName (styles ?w1 c)) = None"
    by (simp add: s)
  from measureHeight_miss [OF this, of P]
  show "fst (measureHeight P ?w1 c) =
          offsetHeight P (fontName (styles w c)) (fontSize (styles w c)) * lineSpacing (styles w c)"
    and "probes (snd (measureHeight P ?w1 c)) =
          probes ?w1 @ [(fontSize (styles w c), fontName (styles w c))]"
    by (simp_all add: s)
qed

theorem measureHeight_cached_witness:
  "measureHeight examplePlatform coldWorld 1 = (48, warmWorld)
   \<and> measureHeight examplePlatform warmWorld 0 = (24, warmWorld)
   \<and> measureHeight examplePlatform warmWorld 1 = (48, warmWorld)
   \<and> fst (measureHeight examplePlatform warmWorld 3) = 36
   \<and> probes (snd (measureHeight examplePlatform warmWorld 3)) = [(24, ''aller''), (12, ''aller'')]"
proof -
  have f: "fontSize (styles coldWorld 0) = fontSize (styles coldWorld 1)"
          "fontName (styles coldWorld 0) = fontName (styles coldWorld 1)"
    by (simp_all add: coldWorld_def exampleHeap_def exampleStyle_def)
  have g: "fontSize (styles warmWorld 1) = fontSize (styles warmWorld 0)"
          "fontName (styles warmWorld 1) = fontName (styles warmWorld 0)"
    by (simp_all add: warmWorld_def coldWorld_def exampleHeap_def exampleStyle_def)
  have miss: "heightCache coldWorld (fontSize (styles coldWorld 1), fontName (styles coldWorld 1))
                = None"
    by (simp add: coldWorld_def)
  have other: "(fontSize (styles coldWorld 3), fontName (styles coldWorld 3))
                 \<noteq> (fontSize (styles coldWorld 1), fontName (styles coldWorld 1))
               \<and> heightCache coldWorld (fontSize (styles coldWorld 3), fontName (styles coldWorld 3))
                   = None"
    by (simp add: coldWorld_def exampleHeap_def exampleStyle_def)
  have hit: "heightCache warmWorld (fontSize (styles warmWorld 0), fontName (styles warmWorld 0))
               = Some 24"
    by (simp add: warmWorld_def coldWorld_def exampleHeap_def exampleStyle_def)
  have w1: "coldWorld
       \<lparr>heightCache := (heightCache coldWorld)
          ((fontSize (styles coldWorld 1), fontName (styles coldWorld 1))
             \<mapsto> offsetHeight examplePlatform (fontName (styles coldWorld 1))
                  (fontSize (styles coldWorld 1))),
        probes := probes coldWorld
          @ [(fontSize (styles coldWorld 1), fontName (styles coldWorld 1))]\<rparr> = warmWorld"
    by (simp add: warmWorld_def coldWorld_def exampleHeap_def exampleStyle_def
          examplePlatform_def)
  from measureHeight_cached [OF f, of examplePlatform undefined 3] miss other
  have a: "measureHeight examplePlatform coldWorld 1 =
          (offsetHeight examplePlatform (fontName (styles coldWorld 1)) (fontSize (styles coldWorld 1))
             * lineSpacing (styles coldWorld 1),
           warmWorld)"
    and c: "fst (measureHeight examplePlatform (snd (measureHeight examplePlatform coldWorld 1)) 3) =
          offsetHeight examplePlatform (fontName (styles coldWorld 3)) (fontSize (styles coldWorld 3))
            * lineSpacing (styles coldWorld 3)"
    and d: "probes (snd (measureHeight examplePlatform
                           (snd (measureHeight examplePlatform coldWorld 1)) 3)) =
          probes (snd (measureHeight examplePlatform coldWorld 1))
            @ [(fontSize (styles coldWorld 3), fontName (styles coldWorld 3))]"
    unfolding w1 by blast+
  from measureHeight_cached [OF g, of examplePlatform 24 undefined] hit
  have b: "measureHeight examplePlatform warmWorld 0 = (24 * lineSpacing (styles warmWorld 0), warmWorld)"
    and b': "measureHeight examplePlatform warmWorld 1 = (24 * lineSpacing (styles warmWorld 1), warmWorld)"
    by blast+
  have v: "offsetHeight examplePlatform (fontName (styles coldWorld 1)) (fontSize (styles coldWorld 1))
             * lineSpacing (styles coldWorld 1) = 48"
          "offsetHeight examplePlatform (fontName (styles coldWorld 3)) (fontSize (styles coldWorld 3))
            * lineSpacing (styles coldWorld 3) = 36"
          "lineSpacing (styles warmWorld 0) = 1" "lineSpacing (styles warmWorld 1) = 2"
          "probes warmWorld = [(24, ''aller'')]"
          "(fontSize (styles coldWorld 3), fontName (styles coldWorld 3)) = (12, ''aller'')"
    by (simp_all add: warmWorld_def coldWorld_def exampleHeap_def exampleStyle_def
          examplePlatform_def)
  have a': "measureHeight examplePlatform coldWorld 1 = (48, warmWorld)"
    using a by (simp only: v)
  then have s: "snd (measureHeight examplePlatform coldWorld 1) = warmWorld" by simp
  have b0: "measureHeight examplePlatform warmWorld 0 = (24, warmWorld)"
    using b unfolding v(3) by simp
  have b1: "measureHeight examplePlatform warmWorld 1 = (48, warmWorld)"
    using b' unfolding v(4) by simp
  have c': "fst (measureHeight examplePlatform warmWorld 3) = 36"
    using c unfolding s v(2) .
  have d': "probes (snd (measureHeight examplePlatform warmWorld 3)) = [(24, ''aller''), (12, ''aller'')]"
    using d unfolding s v(5) v(6) by simp
  from a' b0 b1 c' d' show ?thesis by blast
qed

section \<open>Properties of the interpretation\<close>

lemma unplaced_new [simp]:
  "unplaced (Character 0 0 h wd c st)" "unplaced (Newline 0 0 h wd)"
  by (simp_all add: unplaced_def)

lemma text_loop_items:
  "\<exists>w' new. text_loop P st h (w, parts) cs = (w', parts @ new)
     \<and> map item_glyph new = map (\<lambda>c. Glyph [c]) cs
     \<and> list_all unplaced new
     \<and> map item_style new = replicate (length cs) st
     \<and> styles w' = styles w"
proof (induction cs arbitrary: w parts)
  case Nil
  show ?case by simp
next
  case (Cons c cs)
  obtain wd w1 where m: "measureWidth P w st [c] = (wd, w1)"
    by (cases "measureWidth P w st [c]")
  have s1: "styles w1 = styles w"
    using measureWidth_styles [of P w st "[c]"] m by simp
  from Cons.IH [of w1 "parts @ [Character 0 0 h wd [c] st]"]
  obtain w' new where
    IH: "text_loop P st h (w1, parts @ [Character 0 0 h wd [c] st]) cs
           = (w', (parts @ [Character 0 0 h wd [c] st]) @ new)"
        "map item_glyph new = map (\<lambda>c. Glyph [c]) cs"
        "list_all unplaced new"
        "map item_style new = replicate (length cs) st"
        "styles w' = styles w1"
    by blast
  show ?case
    apply (rule exI [of _ w'])
    apply (rule exI [of _ "Character 0 0 h wd [c] st # new"])
    using m IH s1 by simp
qed

lemma token_loop_append:
  "token_loop P ws (xs @ ys) =
     (case token_loop P ws xs of Inl e \<Rightarrow> Inl e | Inr ws' \<Rightarrow> token_loop P ws' ys)"
  by (induction xs arbitrary: ws) (auto split: sum.splits)

lemma filter_lineFeed: "lineFeed \<notin> set cs \<Longrightarrow> filter (\<lambda>c. c \<noteq> lineFeed) cs = cs"
  by (induction cs) auto

text \<open>What one token adds to the items, whatever the state.\<close>

lemma step_items:
  assumes "step P (w, s) token = Inr (w', s')" and "tokenized token"
  shows "\<exists>new. renderParts s' = renderParts s @ new
           \<and> map item_glyph new = token_glyphs token
           \<and> list_all unplaced new"
proof (cases token)
  case (CommandTok t)
  with assms show ?thesis
    by (auto split: option.splits prod.splits)
next
  case (CommandCloseTok n p)
  with assms show ?thesis
    by (auto split: option.splits if_splits list.splits)
next
  case NewlineTok
  with assms show ?thesis by auto
next
  case (TextTok content)
  from text_loop_items [of P "currentStyle s" "currentStyleHeight s" w "renderParts s" content]
  obtain w1 new where
    t: "text_loop P (currentStyle s) (currentStyleHeight s) (w, renderParts s) content
          = (w1, renderParts s @ new)"
       "map item_glyph new = map (\<lambda>c. Glyph [c]) content"
       "list_all unplaced new"
    by blast
  with assms TextTok show ?thesis
    by (auto simp: filter_lineFeed)
qed

lemma token_loop_items:
  assumes "token_loop P (w, s) tokens = Inr (w', s')" and "list_all tokenized tokens"
  shows "\<exists>new. renderParts s' = renderParts s @ new
           \<and> map item_glyph new = document_glyphs tokens
           \<and> list_all unplaced new"
  using assms
proof (induction tokens arbitrary: w s)
  case Nil
  then show ?case by (simp add: document_glyphs_def)
next
  case (Cons token tokens)
  from Cons.prems obtain w1 s1 where
    st: "step P (w, s) token = Inr (w1, s1)" and
    rest: "token_loop P (w1, s1) tokens = Inr (w', s')"
    by (auto split: sum.splits)
  from step_items [OF st] Cons.prems obtain new1 where
    n1: "renderParts s1 = renderParts s @ new1" "map item_glyph new1 = token_glyphs token"
        "list_all unplaced new1"
    by auto
  from Cons.IH [OF rest] Cons.prems obtain new2 where
    n2: "renderParts s' = renderParts s1 @ new2" "map item_glyph new2 = document_glyphs tokens"
        "list_all unplaced new2"
    by auto
  show ?case
    apply (rule exI [of _ "new1 @ new2"])
    using n1 n2 by (simp add: document_glyphs_def)
qed

text \<open>
  A well-nested token sequence with registered commands runs through, and the tags and
  styles below the starting depth are left as they were.
\<close>

lemma token_loop_nested:
  assumes "open_commands opened tokens = Some opened'"
    and "list_all (registered P) tokens"
    and "currentTag s # tagStack s = map Some tags @ base_tags"
    and "map commandName tags = opened"
    and "currentStyle s # styleStack s = sts @ base_styles"
    and "length sts = length tags"
    and "base_tags \<noteq> []" and "base_styles \<noteq> []"
  shows "\<exists>w' s' tags' sts'. token_loop P (w, s) tokens = Inr (w', s')
           \<and> currentTag s' # tagStack s' = map Some tags' @ base_tags
           \<and> map commandName tags' = opened'
           \<and> currentStyle s' # styleStack s' = sts' @ base_styles
           \<and> length sts' = length tags'"
  using assms
proof (induction tokens arbitrary: opened w s tags sts)
  case Nil
  then show ?case by auto
next
  case (Cons token tokens)
  show ?case
  proof (cases token)
    case (CommandTok t)
    from Cons.prems CommandTok obtain cmd where cmd: "textCommands P (commandName t) = Some cmd"
      by auto
    obtain heap' newStyle where c: "cmd (styles w) (currentStyle s) (argument t) = (heap', newStyle)"
      by (cases "cmd (styles w) (currentStyle s) (argument t)")
    obtain height w1 where h: "measureHeight P (w\<lparr>styles := heap'\<rparr>) newStyle = (height, w1)"
      by (cases "measureHeight P (w\<lparr>styles := heap'\<rparr>) newStyle")
    define s1 where "s1 = s\<lparr>styleStack := currentStyle s # styleStack s,
                          tagStack := currentTag s # tagStack s,
                          currentStyle := newStyle,
                          currentStyleHeight := height,
                          currentTag := Some t\<rparr>"
    have st: "step P (w, s) token = Inr (w1, s1)"
      using CommandTok cmd c h by (simp add: s1_def)
    have "\<exists>w' s' tags' sts'. token_loop P (w1, s1) tokens = Inr (w', s')
           \<and> currentTag s' # tagStack s' = map Some tags' @ base_tags
           \<and> map commandName tags' = opened'
           \<and> currentStyle s' # styleStack s' = sts' @ base_styles
           \<and> length sts' = length tags'"
      apply (rule Cons.IH [of "commandName t # opened" s1 "t # tags" "newStyle # sts"])
      using Cons.prems CommandTok by (simp_all add: s1_def)
    then show ?thesis using st by simp
  next
    case (CommandCloseTok name p)
    from Cons.prems CommandCloseTok obtain ns where
      op: "opened = name # ns" "open_commands ns tokens = Some opened'"
      by (auto split: list.splits if_splits)
    from op Cons.prems obtain t ts where tg: "tags = t # ts" "commandName t = name" "map commandName ts = ns"
      by (cases tags) auto
    from tg Cons.prems obtain st1 sts1 where ss: "sts = st1 # sts1" "length sts1 = length ts"
      by (cases sts) auto
    from Cons.prems obtain bt bts where bt: "base_tags = bt # bts" by (cases base_tags) auto
    from Cons.prems obtain bs bss where bs: "base_styles = bs # bss" by (cases base_styles) auto
    obtain t2 ts2 where tS: "tagStack s = t2 # ts2"
      using Cons.prems tg bt by (cases "tagStack s") auto
    obtain st2 sts2 where sS: "styleStack s = st2 # sts2"
      using Cons.prems ss bs by (cases "styleStack s") auto
    define s1 where "s1 = s\<lparr>currentTag := t2, tagStack := ts2,
                               currentStyle := st2, styleStack := sts2\<rparr>"
    have cur: "currentTag s = Some t" using Cons.prems tg by simp
    have st: "step P (w, s) token = Inr (w, s1)"
      using CommandCloseTok cur tg tS sS by (simp add: s1_def)
    have "\<exists>w' s' tags' sts'. token_loop P (w, s1) tokens = Inr (w', s')
           \<and> currentTag s' # tagStack s' = map Some tags' @ base_tags
           \<and> map commandName tags' = opened'
           \<and> currentStyle s' # styleStack s' = sts' @ base_styles
           \<and> length sts' = length tags'"
      apply (rule Cons.IH [of ns s1 ts sts1])
      using Cons.prems CommandCloseTok op tg ss tS sS by (simp_all add: s1_def)
    then show ?thesis using st by simp
  next
    case NewlineTok
    define s1 where "s1 = s\<lparr>renderParts := renderParts s @ [Newline 0 0 (currentStyleHeight s) 0]\<rparr>"
    have st: "step P (w, s) token = Inr (w, s1)"
      using NewlineTok by (simp add: s1_def)
    have "\<exists>w' s' tags' sts'. token_loop P (w, s1) tokens = Inr (w', s')
           \<and> currentTag s' # tagStack s' = map Some tags' @ base_tags
           \<and> map commandName tags' = opened'
           \<and> currentStyle s' # styleStack s' = sts' @ base_styles
           \<and> length sts' = length tags'"
      apply (rule Cons.IH [of opened s1 tags sts])
      using Cons.prems NewlineTok by (simp_all add: s1_def)
    then show ?thesis using st by simp
  next
    case (TextTok content)
    obtain w1 parts where t:
      "text_loop P (currentStyle s) (currentStyleHeight s) (w, renderParts s) content = (w1, parts)"
      by (cases "text_loop P (currentStyle s) (currentStyleHeight s) (w, renderParts s) content")
    define s1 where "s1 = s\<lparr>renderParts := parts\<rparr>"
    have st: "step P (w, s) token = Inr (w1, s1)"
      using TextTok t by (simp add: s1_def)
    have "\<exists>w' s' tags' sts'. token_loop P (w1, s1) tokens = Inr (w', s')
           \<and> currentTag s' # tagStack s' = map Some tags' @ base_tags
           \<and> map commandName tags' = opened'
           \<and> currentStyle s' # styleStack s' = sts' @ base_styles
           \<and> length sts' = length tags'"
      apply (rule Cons.IH [of opened s1 tags sts])
      using Cons.prems TextTok by (simp_all add: s1_def)
    then show ?thesis using st by simp
  qed
qed

lemma initial_nested:
  assumes "open_commands [] tokens = Some opened" and "list_all (registered P) tokens"
  shows "\<exists>w' s' tags. token_loop P (w, initial_interp h baseStyle) tokens = Inr (w', s')
           \<and> currentTag s' # tagStack s' = map Some tags @ [None]
           \<and> map commandName tags = opened"
proof -
  from token_loop_nested [OF assms(1) assms(2), of "initial_interp h baseStyle" "[]" "[None]" "[]"
      "[baseStyle]" w]
  show ?thesis by (auto simp: initial_interp_def)
qed

text \<open>
  C1. For every token sequence of the tokenizer (no text run holds a line feed) whose
  commands are balanced and registered, \<open>getRenderParts\<close> returns a list of items,
  and that list is the document read in order: one character item for each non-newline
  character of each text run, carrying that character, and one newline item for each
  newline token, nothing else and nothing reordered; every item has \<open>x = 0\<close> and
  \<open>y = 0\<close>.
\<close>

theorem getRenderParts_document:
  assumes "balanced tokens" and "list_all (registered P) tokens"
    and "list_all tokenized tokens"
  shows "\<exists>w' parts. getRenderParts P w tokens baseStyle = Inr (w', parts)
           \<and> map item_glyph parts = document_glyphs tokens
           \<and> list_all unplaced parts"
proof -
  obtain h w0 where m: "measureHeight P w baseStyle = (h, w0)"
    by (cases "measureHeight P w baseStyle")
  from assms(1) have "open_commands [] tokens = Some []" by (simp add: balanced_def)
  from initial_nested [OF this assms(2), of w0 h baseStyle] obtain w' s' where
    run: "token_loop P (w0, initial_interp h baseStyle) tokens = Inr (w', s')"
    by blast
  from token_loop_items [OF run assms(3)] obtain new where
    "renderParts s' = renderParts (initial_interp h baseStyle) @ new"
    "map item_glyph new = document_glyphs tokens" "list_all unplaced new"
    by blast
  then show ?thesis
    using m run by (simp add: getRenderParts_def initial_interp_def)
qed

theorem getRenderParts_document_witness:
  "balanced exampleTokens \<and> list_all (registered examplePlatform) exampleTokens
   \<and> list_all tokenized exampleTokens
   \<and> (\<exists>w' parts. getRenderParts examplePlatform exampleWorld exampleTokens 0 = Inr (w', parts)
        \<and> map item_glyph parts =
            [Glyph [72], Glyph [101], Glyph [108], Glyph [108], Glyph [111], Break,
             Glyph [87], Glyph [111], Glyph [114], Glyph [108], Glyph [100]]
        \<and> list_all unplaced parts)"
proof -
  have b: "balanced exampleTokens"
    by (simp add: balanced_def exampleTokens_def openTag_def)
  have r: "list_all (registered examplePlatform) exampleTokens"
    by (simp add: exampleTokens_def openTag_def examplePlatform_def)
  have t: "list_all tokenized exampleTokens"
    by (simp add: exampleTokens_def openTag_def lineFeed_def)
  have d: "document_glyphs exampleTokens =
            [Glyph [72], Glyph [101], Glyph [108], Glyph [108], Glyph [111], Break,
             Glyph [87], Glyph [111], Glyph [114], Glyph [108], Glyph [100]]"
    by (simp add: document_glyphs_def exampleTokens_def openTag_def lineFeed_def)
  from getRenderParts_document [OF b r t, of exampleWorld 0] b r t d
  show ?thesis by simp
qed

text \<open>
  C4. A close token that is reached while no command is open fails with the
  unmatched-close error, at the position and with the name of that token. A close token
  whose name differs from the name of the innermost open command fails with the
  mismatched-close error at that token, which names the innermost open tag; the
  commands open further out (\<open>outer\<close>) play no part, so the close fails also when
  its name is among them.
\<close>

theorem close_errors:
  assumes "list_all (registered P) before"
  shows "(open_commands [] before = Some [] \<longrightarrow>
            getRenderParts P w (before @ CommandCloseTok name p # rest) baseStyle
              = Inl (UnmatchedClose p name))
       \<and> (open_commands [] before = Some (innermost # outer) \<and> name \<noteq> innermost \<longrightarrow>
            (\<exists>tag. commandName tag = innermost
               \<and> getRenderParts P w (before @ CommandCloseTok name p # rest) baseStyle
                   = Inl (MismatchedClose p name tag)))"
proof -
  obtain h w0 where m: "measureHeight P w baseStyle = (h, w0)"
    by (cases "measureHeight P w baseStyle")
  show ?thesis
  proof (intro conjI impI)
    assume "open_commands [] before = Some []"
    from initial_nested [OF this assms, of w0 h baseStyle] obtain w' s' where
      run: "token_loop P (w0, initial_interp h baseStyle) before = Inr (w', s')"
      and cur: "currentTag s' = None"
      by auto
    show "getRenderParts P w (before @ CommandCloseTok name p # rest) baseStyle
            = Inl (UnmatchedClose p name)"
      using m run cur by (simp add: getRenderParts_def token_loop_append)
  next
    assume "open_commands [] before = Some (innermost # outer) \<and> name \<noteq> innermost"
    then have o: "open_commands [] before = Some (innermost # outer)" and ne: "name \<noteq> innermost"
      by simp_all
    from initial_nested [OF o assms, of w0 h baseStyle] obtain w' s' tags where
      run: "token_loop P (w0, initial_interp h baseStyle) before = Inr (w', s')"
      and tg: "currentTag s' # tagStack s' = map Some tags @ [None]"
              "map commandName tags = innermost # outer"
      by (elim exE conjE)
    from tg obtain tag ts where t: "tags = tag # ts" "commandName tag = innermost"
      by (cases tags) auto
    with tg have cur: "currentTag s' = Some tag" by simp
    have "getRenderParts P w (before @ CommandCloseTok name p # rest) baseStyle
            = Inl (MismatchedClose p name tag)"
      using m run cur ne t by (simp add: getRenderParts_def token_loop_append)
    with t show "\<exists>tag. commandName tag = innermost
               \<and> getRenderParts P w (before @ CommandCloseTok name p # rest) baseStyle
                   = Inl (MismatchedClose p name tag)"
      by blast
  qed
qed

theorem close_errors_witness:
  "getRenderParts examplePlatform exampleWorld
     ([TextTok [72]] @ CommandCloseTok ''b'' 1 # [TextTok [105]]) 0
     = Inl (UnmatchedClose 1 ''b'')
   \<and> (\<exists>tag. commandName tag = ''i''
        \<and> getRenderParts examplePlatform exampleWorld
             ([openTag ''b'' 0, openTag ''i'' 3] @ CommandCloseTok ''b'' 6 # [CommandCloseTok ''i'' 9]) 0
             = Inl (MismatchedClose 6 ''b'' tag))"
proof -
  have r1: "list_all (registered examplePlatform) [TextTok [72]]" by simp
  have r2: "list_all (registered examplePlatform) [openTag ''b'' 0, openTag ''i'' 3]"
    by (simp add: openTag_def examplePlatform_def)
  have o1: "open_commands [] [TextTok [72]] = Some []" by simp
  have o2: "open_commands [] [openTag ''b'' 0, openTag ''i'' 3] = Some (''i'' # [''b''])"
    by (simp add: openTag_def)
  have n: "''b'' \<noteq> ''i''" by simp
  from close_errors [OF r1, where w = exampleWorld and name = "''b''" and p = 1
      and rest = "[TextTok [105]]" and baseStyle = 0] o1
  have a: "getRenderParts examplePlatform exampleWorld
     ([TextTok [72]] @ CommandCloseTok ''b'' 1 # [TextTok [105]]) 0
     = Inl (UnmatchedClose 1 ''b'')"
    by blast
  from close_errors [OF r2, where w = exampleWorld and name = "''b''" and p = 6
      and rest = "[CommandCloseTok ''i'' 9]" and baseStyle = 0 and innermost = "''i''"
      and outer = "[''b'']"]
    o2 n
  have b: "\<exists>tag. commandName tag = ''i''
        \<and> getRenderParts examplePlatform exampleWorld
             ([openTag ''b'' 0, openTag ''i'' 3] @ CommandCloseTok ''b'' 6 # [CommandCloseTok ''i'' 9]) 0
             = Inl (MismatchedClose 6 ''b'' tag)"
    by blast
  from a b show ?thesis by blast
qed

text \<open>
  C5 as stated does not hold: with the command \<open>b\<close> still open at the end of the
  tokens, \<open>getRenderParts\<close> returns the items built so far.
\<close>

theorem unclosed_tag_counterexample:
  "open_commands [] [openTag ''b'' 0, TextTok [72]] = Some [''b'']
   \<and> map_sum id snd (getRenderParts examplePlatform exampleWorld [openTag ''b'' 0, TextTok [72]] 0)
       = Inr [Character 0 0 60 10 [72] 1]"
  by (simp add: getRenderParts_def openTag_def examplePlatform_def exampleWorld_def
        exampleHeap_def exampleStyle_def measureHeight_def measureWidth_def font_of_def
        initial_interp_def Let_def)

text \<open>
  C5, amended. \<open>getRenderParts\<close> has no check at the end of the tokens: when commands
  are still open there (every close token before having named the innermost open command,
  every command registered), it does not fail but returns the items of the whole
  document.
\<close>

theorem unclosed_tags_tolerated:
  assumes "open_commands [] tokens = Some opened" and "opened \<noteq> []"
    and "list_all (registered P) tokens"
    and "list_all tokenized tokens"
  shows "\<exists>w' parts. getRenderParts P w tokens baseStyle = Inr (w', parts)
           \<and> map item_glyph parts = document_glyphs tokens"
proof -
  obtain h w0 where m: "measureHeight P w baseStyle = (h, w0)"
    by (cases "measureHeight P w baseStyle")
  from initial_nested [OF assms(1) assms(3), of w0 h baseStyle] obtain w' s' where
    run: "token_loop P (w0, initial_interp h baseStyle) tokens = Inr (w', s')"
    by blast
  from token_loop_items [OF run assms(4)] obtain new where
    "renderParts s' = renderParts (initial_interp h baseStyle) @ new"
    "map item_glyph new = document_glyphs tokens"
    by blast
  then show ?thesis
    using m run by (simp add: getRenderParts_def initial_interp_def)
qed

theorem unclosed_tags_tolerated_witness:
  "open_commands [] [openTag ''b'' 0, TextTok [72], openTag ''i'' 4] = Some [''i'', ''b'']
   \<and> (\<exists>w' parts. getRenderParts examplePlatform exampleWorld
                     [openTag ''b'' 0, TextTok [72], openTag ''i'' 4] 0 = Inr (w', parts)
         \<and> map item_glyph parts = [Glyph [72]])"
proof -
  have o: "open_commands [] [openTag ''b'' 0, TextTok [72], openTag ''i'' 4] = Some [''i'', ''b'']"
    by (simp add: openTag_def)
  have n: "[''i'', ''b''] \<noteq> []" by simp
  have r: "list_all (registered examplePlatform) [openTag ''b'' 0, TextTok [72], openTag ''i'' 4]"
    by (simp add: openTag_def examplePlatform_def)
  have t: "list_all tokenized [openTag ''b'' 0, TextTok [72], openTag ''i'' 4]"
    by (simp add: openTag_def lineFeed_def)
  have d: "document_glyphs [openTag ''b'' 0, TextTok [72], openTag ''i'' 4] = [Glyph [72]]"
    by (simp add: document_glyphs_def openTag_def lineFeed_def)
  from unclosed_tags_tolerated [OF o n r t, of exampleWorld 0] o d
  show ?thesis by simp
qed


lemma open_commands_append:
  "open_commands opened (xs @ ys) =
     (case open_commands opened xs of None \<Rightarrow> None | Some opened' \<Rightarrow> open_commands opened' ys)"
  by (induction opened xs rule: open_commands.induct) (auto split: list.splits)

lemma open_commands_deeper:
  "open_commands opened tokens = Some opened' \<Longrightarrow>
     open_commands (opened @ below) tokens = Some (opened' @ below)"
  by (induction opened tokens rule: open_commands.induct) (auto split: list.splits if_splits)

lemma balanced_pair:
  assumes "balanced body"
  shows "open_commands [] (CommandTok tag # body @ [CommandCloseTok (commandName tag) p]) = Some []"
proof -
  from assms have "open_commands [] body = Some []" by (simp add: balanced_def)
  from open_commands_deeper [OF this, of "[commandName tag]"]
  show ?thesis by (simp add: open_commands_append)
qed

lemma step_grows:
  assumes "step P (w, s) token = Inr (w', s')"
  shows "\<exists>new. renderParts s' = renderParts s @ new"
proof (cases token)
  case (TextTok content)
  from text_loop_items [of P "currentStyle s" "currentStyleHeight s" w "renderParts s" content]
  obtain w1 new where
    "text_loop P (currentStyle s) (currentStyleHeight s) (w, renderParts s) content
          = (w1, renderParts s @ new)"
    by blast
  with assms TextTok show ?thesis by auto
qed (use assms in \<open>auto split: option.splits prod.splits if_splits list.splits\<close>)

lemma token_loop_grows:
  assumes "token_loop P (w, s) tokens = Inr (w', s')"
  shows "\<exists>new. renderParts s' = renderParts s @ new"
  using assms
proof (induction tokens arbitrary: w s)
  case Nil
  then show ?case by simp
next
  case (Cons token tokens)
  from Cons.prems obtain w1 s1 where
    st: "step P (w, s) token = Inr (w1, s1)" and
    rest: "token_loop P (w1, s1) tokens = Inr (w', s')"
    by (auto split: sum.splits)
  from step_grows [OF st] Cons.IH [OF rest] show ?case by auto
qed

lemma token_loop_append_Inr:
  "token_loop P ws xs = Inr ws' \<Longrightarrow> token_loop P ws' ys = r \<Longrightarrow> token_loop P ws (xs @ ys) = r"
  by (simp add: token_loop_append)

lemma token_loop_Cons_Inr:
  "step P ws t = Inr ws' \<Longrightarrow> token_loop P ws' ts = r \<Longrightarrow> token_loop P ws (t # ts) = r"
  by simp

lemma pair_restores:
  assumes "balanced body" and "list_all (registered P) body"
    and "textCommands P (commandName tag) \<noteq> None"
  shows "\<exists>w' s' new. token_loop P (w, s)
             (CommandTok tag # body @ [CommandCloseTok (commandName tag) p]) = Inr (w', s')
           \<and> currentStyle s' = currentStyle s \<and> styleStack s' = styleStack s
           \<and> currentTag s' = currentTag s \<and> tagStack s' = tagStack s
           \<and> renderParts s' = renderParts s @ new"
proof -
  let ?ts = "CommandTok tag # body @ [CommandCloseTok (commandName tag) p]"
  have r: "list_all (registered P) ?ts" using assms by simp
  from token_loop_nested [OF balanced_pair [OF assms(1)] r,
      of s "[]" "currentTag s # tagStack s" "[]" "currentStyle s # styleStack s" w]
  obtain w' s' where
    run: "token_loop P (w, s) ?ts = Inr (w', s')" and
    eq: "currentTag s' # tagStack s' = currentTag s # tagStack s"
        "currentStyle s' # styleStack s' = currentStyle s # styleStack s"
    by auto
  from token_loop_grows [OF run] obtain new where "renderParts s' = renderParts s @ new" ..
  with run eq show ?thesis by auto
qed

text \<open>
  C10. Styles are restored by identity. For a command that is opened, a balanced body and
  the matching close, the current style after the close is the same address (the same
  object) as before the open, and so are the current tag and both stacks; the character
  items of a text run before the open and of a text run after the close carry that one
  address as their style.
\<close>

theorem style_restored_by_identity:
  assumes "balanced body" and "list_all (registered P) body"
    and "textCommands P (commandName tag) \<noteq> None"
  shows "\<exists>w' s' before inside after.
           token_loop P (w, s)
             (TextTok content1 # CommandTok tag # body
                @ [CommandCloseTok (commandName tag) p, TextTok content2]) = Inr (w', s')
           \<and> currentStyle s' = currentStyle s \<and> styleStack s' = styleStack s
           \<and> currentTag s' = currentTag s \<and> tagStack s' = tagStack s
           \<and> renderParts s' = renderParts s @ before @ inside @ after
           \<and> map item_style before = replicate (length content1) (currentStyle s)
           \<and> map item_style after = replicate (length content2) (currentStyle s)"
proof -
  from text_loop_items [of P "currentStyle s" "currentStyleHeight s" w "renderParts s" content1]
  obtain w1 before where
    t1: "text_loop P (currentStyle s) (currentStyleHeight s) (w, renderParts s) content1
          = (w1, renderParts s @ before)"
        "map item_style before = replicate (length content1) (currentStyle s)"
    by blast
  define s1 where "s1 = s\<lparr>renderParts := renderParts s @ before\<rparr>"
  have st1: "step P (w, s) (TextTok content1) = Inr (w1, s1)"
    using t1 by (simp add: s1_def)
  from pair_restores [OF assms, of w1 s1 p] obtain w2 s2 inside where
    run: "token_loop P (w1, s1) (CommandTok tag # body @ [CommandCloseTok (commandName tag) p])
            = Inr (w2, s2)"
    and eq: "currentStyle s2 = currentStyle s1" "styleStack s2 = styleStack s1"
            "currentTag s2 = currentTag s1" "tagStack s2 = tagStack s1"
            "renderParts s2 = renderParts s1 @ inside"
    by blast
  from text_loop_items [of P "currentStyle s2" "currentStyleHeight s2" w2 "renderParts s2" content2]
  obtain w3 after where
    t2: "text_loop P (currentStyle s2) (currentStyleHeight s2) (w2, renderParts s2) content2
          = (w3, renderParts s2 @ after)"
        "map item_style after = replicate (length content2) (currentStyle s2)"
    by blast
  define s3 where "s3 = s2\<lparr>renderParts := renderParts s2 @ after\<rparr>"
  have st3: "step P (w2, s2) (TextTok content2) = Inr (w3, s3)"
    using t2 by (simp add: s3_def)
  have whole: "token_loop P (w, s)
             (TextTok content1 # CommandTok tag # body
                @ [CommandCloseTok (commandName tag) p, TextTok content2]) = Inr (w3, s3)"
  proof -
    have l3: "token_loop P (w2, s2) [TextTok content2] = Inr (w3, s3)"
      by (simp only: token_loop.simps st3 sum.case)
    have "token_loop P (w1, s1)
            ((CommandTok tag # body @ [CommandCloseTok (commandName tag) p]) @ [TextTok content2])
            = Inr (w3, s3)"
      by (rule token_loop_append_Inr [OF run l3])
    then have "token_loop P (w, s)
             (TextTok content1 # (CommandTok tag # body @ [CommandCloseTok (commandName tag) p])
                @ [TextTok content2]) = Inr (w3, s3)"
      by (rule token_loop_Cons_Inr [OF st1])
    then show ?thesis by (simp only: append_Cons append_assoc append_Nil)
  qed
  show ?thesis
    apply (rule exI [of _ w3], rule exI [of _ s3], rule exI [of _ before],
           rule exI [of _ inside], rule exI [of _ after])
    using whole eq t1 t2 by (simp add: s1_def s3_def)
qed

theorem style_restored_by_identity_witness:
  "\<exists>w' s' before inside after.
      token_loop examplePlatform (exampleWorld, initial_interp 30 0)
        (TextTok [72, 101] # openTag ''b'' 2 # [TextTok [108], openTag ''i'' 6, CommandCloseTok ''i'' 10]
           @ [CommandCloseTok ''b'' 14, TextTok [111]]) = Inr (w', s')
      \<and> currentStyle s' = 0 \<and> styleStack s' = [] \<and> currentTag s' = None \<and> tagStack s' = []
      \<and> renderParts s' = before @ inside @ after
      \<and> map item_style before = [0, 0]
      \<and> map item_style after = [0]"
proof -
  have b: "balanced [TextTok [108], openTag ''i'' 6, CommandCloseTok ''i'' 10]"
    by (simp add: balanced_def openTag_def)
  have r: "list_all (registered examplePlatform)
             [TextTok [108], openTag ''i'' 6, CommandCloseTok ''i'' 10]"
    by (simp add: openTag_def examplePlatform_def)
  have c: "textCommands examplePlatform
             (commandName \<lparr>commandName = ''b'', argument = None, pos = 2\<rparr>) \<noteq> None"
    by (simp add: examplePlatform_def)
  from style_restored_by_identity [OF b r c, where w = exampleWorld and s = "initial_interp 30 0"
      and ?content1.0 = "[72, 101]" and ?content2.0 = "[111]" and p = 14]
  show ?thesis
    by (simp add: openTag_def initial_interp_def numeral_2_eq_2)
qed

section \<open>Properties of rendering\<close>

lemma draw_calls_append [simp]: "draw_calls (xs @ ys) = draw_calls xs @ draw_calls ys"
  by (simp add: draw_calls_def)

lemma applyTextStyleToCanvas_ops:
  "\<exists>ops. applyTextStyleToCanvas st ctx = ctx @ ops \<and> draw_calls ops = []"
  by (simp add: applyTextStyleToCanvas_def draw_calls_def)

lemma optional_style_ops:
  "\<exists>ops. (if b then applyTextStyleToCanvas st ctx else ctx) = ctx @ ops \<and> draw_calls ops = []"
  using applyTextStyleToCanvas_ops [of st ctx] by (cases b) (simp_all add: draw_calls_def)

lemma stroke_loop_calls:
  "\<exists>cur' ops. stroke_loop heap (cur, ctx) parts = (cur', ctx @ ops)
     \<and> draw_calls ops = map stroke_call (filter (stroked heap) parts)"
proof (induction parts arbitrary: cur ctx)
  case Nil
  show ?case by (simp add: draw_calls_def)
next
  case (Cons part parts)
  show ?case
  proof (cases part)
    case (Newline x y h wd)
    with Cons.IH [of cur ctx] show ?thesis by (simp add: stroked_def)
  next
    case (Character x y h wd c st)
    define ctx1 where "ctx1 = (if Some st \<noteq> cur then applyTextStyleToCanvas (heap st) ctx else ctx)"
    define ctx2 where "ctx2 = (if strokeWidth (heap st) > 0 \<and> strokeColor (heap st) \<noteq> ''''
                  then ctx1 @ [StrokeText c x y] else ctx1)"
    obtain ops1 where o1: "ctx1 = ctx @ ops1" "draw_calls ops1 = []"
      using optional_style_ops [of "Some st \<noteq> cur" "heap st" ctx] unfolding ctx1_def by blast
    define ops2 where "ops2 = ops1 @ (if strokeWidth (heap st) > 0 \<and> strokeColor (heap st) \<noteq> ''''
                  then [StrokeText c x y] else [])"
    have o2: "ctx2 = ctx @ ops2"
      "draw_calls ops2 = map stroke_call (filter (stroked heap) [part])"
      using o1 Character
      by (simp_all add: ctx2_def ops2_def stroked_def stroke_call_def draw_calls_def)
    from Cons.IH [of "Some st" ctx2] obtain cur' ops where
      r: "stroke_loop heap (Some st, ctx2) parts = (cur', ctx2 @ ops)"
         "draw_calls ops = map stroke_call (filter (stroked heap) parts)"
      by blast
    have "stroke_loop heap (cur, ctx) (part # parts) = stroke_loop heap (Some st, ctx2) parts"
      by (simp add: Character ctx1_def ctx2_def Let_def)
    also have "\<dots> = (cur', ctx @ (ops2 @ ops))"
      using r(1) by (simp add: o2(1))
    finally have "stroke_loop heap (cur, ctx) (part # parts) = (cur', ctx @ (ops2 @ ops))" .
    moreover have "draw_calls (ops2 @ ops) = map stroke_call (filter (stroked heap) (part # parts))"
      using o2 r by simp
    ultimately show ?thesis by blast
  qed
qed

lemma fill_loop_calls:
  "\<exists>cur' ops. fill_loop heap (cur, ctx) parts = (cur', ctx @ ops)
     \<and> draw_calls ops = map fill_call (filter is_Character parts)"
proof (induction parts arbitrary: cur ctx)
  case Nil
  show ?case by (simp add: draw_calls_def)
next
  case (Cons part parts)
  show ?case
  proof (cases part)
    case (Newline x y h wd)
    with Cons.IH [of cur ctx] show ?thesis by simp
  next
    case (Character x y h wd c st)
    define ctx1 where "ctx1 = (if Some st \<noteq> cur then applyTextStyleToCanvas (heap st) ctx else ctx)"
    obtain ops1 where o1: "ctx1 = ctx @ ops1" "draw_calls ops1 = []"
      using optional_style_ops [of "Some st \<noteq> cur" "heap st" ctx] unfolding ctx1_def by blast
    from Cons.IH [of "Some st" "ctx1 @ [FillText c x y]"] obtain cur' ops where
      r: "fill_loop heap (Some st, ctx1 @ [FillText c x y]) parts
            = (cur', (ctx1 @ [FillText c x y]) @ ops)"
         "draw_calls ops = map fill_call (filter is_Character parts)"
      by blast
    have "fill_loop heap (cur, ctx) (part # parts)
            = fill_loop heap (Some st, ctx1 @ [FillText c x y]) parts"
      by (simp add: Character ctx1_def Let_def)
    also have "\<dots> = (cur', ctx @ (ops1 @ [FillText c x y] @ ops))"
      using r(1) by (simp add: o1(1))
    finally have "fill_loop heap (cur, ctx) (part # parts)
            = (cur', ctx @ (ops1 @ [FillText c x y] @ ops))" .
    moreover have "draw_calls (ops1 @ [FillText c x y] @ ops)
                     = map fill_call (filter is_Character (part # parts))"
      using o1 r Character by (simp add: fill_call_def draw_calls_def)
    ultimately show ?thesis by blast
  qed
qed

text \<open>
  C9. The draw calls that \<open>render\<close> issues are, in this order, one stroke for each
  character item whose style has \<open>strokeWidth > 0\<close> and a non-empty
  \<open>strokeColor\<close>, in the order of the items, and then one fill for each character
  item, in the order of the items. So no stroke follows a fill, every character item is
  filled exactly once, and a newline item gives no draw call in either pass.
\<close>

theorem render_strokes_before_fills:
  "\<exists>ops. render heap parts ctx = ctx @ ops
     \<and> draw_calls ops = map stroke_call (filter (stroked heap) parts)
                          @ map fill_call (filter is_Character parts)"
proof -
  from stroke_loop_calls [of heap None "ctx @ [Save]" parts] obtain cur1 ops1 where
    s: "stroke_loop heap (None, ctx @ [Save]) parts = (cur1, (ctx @ [Save]) @ ops1)"
       "draw_calls ops1 = map stroke_call (filter (stroked heap) parts)"
    by blast
  from fill_loop_calls [of heap cur1 "(ctx @ [Save]) @ ops1" parts] obtain cur2 ops2 where
    f: "fill_loop heap (cur1, (ctx @ [Save]) @ ops1) parts = (cur2, ((ctx @ [Save]) @ ops1) @ ops2)"
       "draw_calls ops2 = map fill_call (filter is_Character parts)"
    by blast
  have "render heap parts ctx = ctx @ ([Save] @ ops1 @ ops2 @ [Restore])"
    using s f by (simp add: render_def)
  moreover have "draw_calls ([Save] @ ops1 @ ops2 @ [Restore])
                   = map stroke_call (filter (stroked heap) parts)
                     @ map fill_call (filter is_Character parts)"
    using s f by (simp add: draw_calls_def)
  ultimately show ?thesis by blast
qed

section \<open>Properties of the alignment\<close>

lemma set_x_simps [simp]:
  "item_y (set_x v p) = item_y p" "item_width (set_x v p) = item_width p"
  "item_height (set_x v p) = item_height p" "item_x (set_x v p) = v"
  "is_Newline (set_x v p) = is_Newline p" "is_Character (set_x v p) = is_Character p"
  by (cases p; simp)+

lemma set_y_simps [simp]:
  "item_y (set_y v p) = v" "item_width (set_y v p) = item_width p"
  "item_height (set_y v p) = item_height p" "item_x (set_y v p) = item_x p"
  "is_Newline (set_y v p) = is_Newline p" "is_Character (set_y v p) = is_Character p"
  by (cases p; simp)+

lemma set_width_simps [simp]:
  "item_y (set_width v p) = item_y p" "item_width (set_width v p) = v"
  "item_height (set_width v p) = item_height p" "item_x (set_width v p) = item_x p"
  "is_Newline (set_width v p) = is_Newline p" "is_Character (set_width v p) = is_Character p"
  by (cases p; simp)+

lemma set_style_simps [simp]:
  "is_Character p \<Longrightarrow> item_style (set_x v p) = item_style p"
  "is_Character p \<Longrightarrow> item_style (set_y v p) = item_style p"
  "is_Character p \<Longrightarrow> item_style (set_width v p) = item_style p"
  "is_Character p \<Longrightarrow> item_character (set_x v p) = item_character p"
  "is_Character p \<Longrightarrow> item_character (set_y v p) = item_character p"
  "is_Character p \<Longrightarrow> item_character (set_width v p) = item_character p"
  by (cases p; simp)+

lemma not_Newline: "\<not> is_Newline p \<Longrightarrow> is_Character p"
  by (cases p) simp_all

lemma Newline_not_Character: "is_Newline p \<Longrightarrow> \<not> is_Character p"
  by (cases p) simp_all

text \<open>
  The item that the character branch calls \<open>lastItem\<close> is the item of this round: it
  was pushed on \<open>currentLine\<close> before. The two branches of a round, simplified.
\<close>

lemma align_loop_Newline:
  assumes "is_Newline item"
  shows "align_loop heap align xStart xEnd lineHeights a (item # rest) =
     align_loop heap align xStart xEnd lineHeights
       \<lparr>fixed = fixed a @ fixLine align xStart xEnd (lineWidth a + item_width item)
                            (currentLine a @ [set_y (cursorY a) item]),
        currentLine = [], lineWidth = 0, lineHeight = 0,
        cursorY = cursorY a + height_or_zero lineHeights (line a + 1),
        line = line a + 1\<rparr> rest"
  using assms by (simp add: Let_def)

lemma align_loop_Character:
  assumes "is_Character item"
  shows "align_loop heap align xStart xEnd lineHeights a (item # rest) =
     align_loop heap align xStart xEnd lineHeights
       (a\<lparr>currentLine := currentLine a
              @ [set_width (spaced_width heap item) (set_y (cursorY a) item)],
          lineWidth := lineWidth a + spaced_width heap item,
          lineHeight := max (lineHeight a) (item_height item)\<rparr>) rest"
proof -
  have n: "\<not> is_Newline item" using assms by (cases item) simp_all
  have w: "lineWidth a + item_width item + letterSpacing (heap (item_style item))
             = lineWidth a + spaced_width heap item"
    using assms by (simp only: spaced_width_def if_True add.assoc)
  have "align_loop heap align xStart xEnd lineHeights a (item # rest) =
     align_loop heap align xStart xEnd lineHeights
       (a\<lparr>currentLine := currentLine a
              @ [set_width (spaced_width heap item) (set_y (cursorY a) item)],
          lineWidth := lineWidth a + item_width item + letterSpacing (heap (item_style item)),
          lineHeight := max (lineHeight a) (item_height item)\<rparr>) rest"
    using assms n by (simp add: Let_def spaced_width_def)
  then show ?thesis by (simp only: w)
qed

lemma place_widths [simp]: "map item_width (place x l) = map item_width l"
  by (induction l arbitrary: x) simp_all

lemma place_ys [simp]: "map item_y (place x l) = map item_y l"
  by (induction l arbitrary: x) simp_all

lemma place_length [simp]: "length (place x l) = length l"
  by (induction l arbitrary: x) simp_all

lemma place_xs: "map item_x (place x l) = cursor_positions x (map item_width l)"
  by (induction l arbitrary: x) simp_all

lemma fixLine_place:
  "fixLine align xStart xEnd width l = place (line_start align xStart xEnd width) l"
  by (simp add: fixLine_def line_start_def)

text \<open>The widths after the loop, whatever the lines are.\<close>

lemma align_loop_widths:
  "map item_width (align_loop heap align xStart xEnd lineHeights a rest) =
     map item_width (fixed a) @ map item_width (currentLine a) @ map (spaced_width heap) rest"
proof (induction rest arbitrary: a)
  case Nil
  show ?case by (simp add: fixLine_place)
next
  case (Cons item rest)
  show ?case
  proof (cases "is_Newline item")
    case True
    then show ?thesis
      by (simp only: align_loop_Newline [OF True] Cons.IH)
         (simp add: fixLine_place spaced_width_def Newline_not_Character)
  next
    case False
    then have c: "is_Character item" by (rule not_Newline)
    show ?thesis
      by (simp only: align_loop_Character [OF c] Cons.IH) simp
  qed
qed

text \<open>A line without a line break: one call of \<open>fixLine\<close>, at the end.\<close>

lemma align_loop_single_line:
  assumes "list_all is_Character rest"
  shows "align_loop heap align xStart xEnd lineHeights a rest =
     fixed a @ fixLine align xStart xEnd (lineWidth a + sum_list (map (spaced_width heap) rest))
       (currentLine a
          @ map (\<lambda>p. set_width (spaced_width heap p) (set_y (cursorY a) p)) rest)"
  using assms
proof (induction rest arbitrary: a)
  case Nil
  show ?case by simp
next
  case (Cons item rest)
  then have c: "is_Character item" and r: "list_all is_Character rest" by simp_all
  have "align_loop heap align xStart xEnd lineHeights a (item # rest) =
     fixed a @ fixLine align xStart xEnd
       (lineWidth a + spaced_width heap item + sum_list (map (spaced_width heap) rest))
       ((currentLine a @ [set_width (spaced_width heap item) (set_y (cursorY a) item)])
          @ map (\<lambda>p. set_width (spaced_width heap p) (set_y (cursorY a) p)) rest)"
    by (simp only: align_loop_Character [OF c] Cons.IH [OF r]) simp
  also have "lineWidth a + spaced_width heap item + sum_list (map (spaced_width heap) rest)
      = lineWidth a + sum_list (map (spaced_width heap) (item # rest))"
    by simp
  finally show ?case by simp
qed

text \<open>A line that ends with its line break: \<open>fixLine\<close> at the break, and once more on nothing.\<close>

lemma align_loop_terminated_line:
  assumes "list_all is_Character init" and "is_Newline l"
  shows "align_loop heap align xStart xEnd lineHeights a (init @ [l]) =
     fixed a @ fixLine align xStart xEnd
       (lineWidth a + sum_list (map (spaced_width heap) (init @ [l])))
       (currentLine a
          @ map (\<lambda>p. set_width (spaced_width heap p) (set_y (cursorY a) p)) (init @ [l]))"
  using assms
proof (induction init arbitrary: a)
  case Nil
  have w: "spaced_width heap l = item_width l"
    using Nil.prems by (simp add: spaced_width_def Newline_not_Character)
  have e: "set_width (item_width l) (set_y (cursorY a) l) = set_y (cursorY a) l"
    by (cases l) simp_all
  show ?case
    unfolding append_Nil align_loop_Newline [OF Nil.prems(2)]
    by (simp add: w e fixLine_place)
next
  case (Cons item init)
  then have c: "is_Character item" and r: "list_all is_Character init" by simp_all
  have "align_loop heap align xStart xEnd lineHeights a ((item # init) @ [l]) =
     fixed a @ fixLine align xStart xEnd
       (lineWidth a + spaced_width heap item + sum_list (map (spaced_width heap) (init @ [l])))
       ((currentLine a @ [set_width (spaced_width heap item) (set_y (cursorY a) item)])
          @ map (\<lambda>p. set_width (spaced_width heap p) (set_y (cursorY a) p)) (init @ [l]))"
    unfolding append_Cons
    by (simp only: align_loop_Character [OF c] Cons.IH [OF r Cons.prems(2)]) simp
  also have "lineWidth a + spaced_width heap item + sum_list (map (spaced_width heap) (init @ [l]))
      = lineWidth a + sum_list (map (spaced_width heap) ((item # init) @ [l]))"
    by simp
  finally show ?case by simp
qed

lemma single_line_xs:
  assumes "single_line parts"
  shows "map item_x (fixAlignment heap align xStart xEnd yStart parts) =
     cursor_positions
       (line_start align xStart xEnd (sum_list (map (spaced_width heap) parts)))
       (map (spaced_width heap) parts)"
proof -
  have "fixAlignment heap align xStart xEnd yStart parts =
     place (line_start align xStart xEnd (sum_list (map (spaced_width heap) parts)))
       (map (\<lambda>p. set_width (spaced_width heap p) (set_y yStart p)) parts)"
  proof (cases "list_all is_Character parts")
    case True
    show ?thesis
      unfolding fixAlignment_def align_loop_single_line [OF True] fixLine_place by simp
  next
    case False
    then have ne: "parts \<noteq> []" by auto
    then have p: "parts = butlast parts @ [last parts]" by simp
    from assms have i: "list_all is_Character (butlast parts)" by (simp add: single_line_def)
    have l: "is_Newline (last parts)"
    proof (rule ccontr)
      assume "\<not> is_Newline (last parts)"
      then have "is_Character (last parts)" by (rule not_Newline)
      with i have "list_all is_Character (butlast parts @ [last parts])" by simp
      with p False show False by simp
    qed
    show ?thesis
      unfolding fixAlignment_def
      by (subst (2) p, subst align_loop_terminated_line [OF i l])
         (simp add: fixLine_place p [symmetric])
  qed
  then show ?thesis
    by (simp only: place_xs) (simp add: comp_def)
qed

lemma spaced_width_zero:
  assumes "list_all (unspaced heap) parts"
  shows "map (spaced_width heap) parts = map item_width parts"
  using assms by (induction parts) (simp_all add: spaced_width_def unspaced_def)

text \<open>
  C7. On a single line of items (no line break, except possibly as the last item) whose
  characters have no letter spacing, the x coordinates after \<open>fixAlignment\<close> are a
  running cursor that every item advances by its width; it
  starts at \<open>xStart\<close> for left, at \<open>xStart + (xEnd - xStart) / 2 - lineWidth / 2\<close> for
  center and at \<open>xEnd - lineWidth\<close> for right alignment, where \<open>lineWidth\<close> is the
  sum of the widths.
\<close>

theorem single_line_cursor:
  assumes "single_line parts" and "list_all (unspaced heap) parts"
  shows "map item_x (fixAlignment heap align xStart xEnd yStart parts) =
     cursor_positions
       (case align of
          AlignLeft \<Rightarrow> xStart
        | AlignCenter \<Rightarrow> xStart + (xEnd - xStart) / 2 - sum_list (map item_width parts) / 2
        | AlignRight \<Rightarrow> xEnd - sum_list (map item_width parts))
       (map item_width parts)"
  using single_line_xs [OF assms(1), of heap align xStart xEnd yStart]
  by (simp add: spaced_width_zero [OF assms(2)] line_start_def)

theorem single_line_cursor_witness:
  "map item_x (fixAlignment exampleHeap AlignLeft 0 100 0
      [Character 0 0 30 10 [97] 0, Character 0 0 30 10 [98] 0, Character 0 0 30 10 [99] 0])
     = [0, 10, 20]
   \<and> map item_x (fixAlignment exampleHeap AlignRight 0 100 0
      [Character 0 0 30 10 [97] 0, Character 0 0 30 10 [98] 0, Character 0 0 30 10 [99] 0])
     = [70, 80, 90]
   \<and> map item_x (fixAlignment exampleHeap AlignCenter 0 100 0
      [Character 0 0 30 10 [97] 0, Character 0 0 30 10 [98] 0])
     = [40, 50]
   \<and> map item_x (fixAlignment exampleHeap AlignCenter 0 100 0
      [Character 0 0 30 10 [97] 0, Character 0 0 30 10 [98] 0, Newline 0 0 30 0])
     = [40, 50, 60]"
proof -
  let ?three = "[Character 0 0 30 10 [97] 0, Character 0 0 30 10 [98] 0, Character 0 0 30 10 [99] 0]"
  let ?two = "[Character 0 0 30 10 [97] 0, Character 0 0 30 10 [98] 0]"
  let ?ended = "[Character 0 0 30 10 [97] 0, Character 0 0 30 10 [98] 0, Newline 0 0 30 0]"
  have c3: "single_line ?three" and c2: "single_line ?two" and ce: "single_line ?ended"
    by (simp_all add: single_line_def)
  have z3: "list_all (unspaced exampleHeap) ?three"
    and z2: "list_all (unspaced exampleHeap) ?two"
    and ze: "list_all (unspaced exampleHeap) ?ended"
    by (simp_all add: unspaced_def exampleHeap_def exampleStyle_def)
  from single_line_cursor [OF c3 z3, of AlignLeft 0 100 0]
       single_line_cursor [OF c3 z3, of AlignRight 0 100 0]
       single_line_cursor [OF c2 z2, of AlignCenter 0 100 0]
       single_line_cursor [OF ce ze, of AlignCenter 0 100 0]
  show ?thesis by simp
qed

subsection \<open>Letter spacing\<close>

lemma place_chained: "chained (place x l)"
proof (induction l arbitrary: x)
  case Nil
  show ?case by simp
next
  case (Cons p l)
  show ?case
  proof (cases l)
    case Nil
    then show ?thesis by simp
  next
    case (Cons q l')
    with Cons.IH [of "x + item_width p"] show ?thesis by simp
  qed
qed

lemma chained_append:
  assumes "chained xs" and "chained ys" and "xs = [] \<or> is_Newline (last xs)"
  shows "chained (xs @ ys)"
  using assms
proof (induction xs)
  case Nil
  then show ?case by simp
next
  case (Cons a xs)
  show ?case
  proof (cases xs)
    case Nil
    with Cons.prems show ?thesis
      by (cases ys) (simp_all add: Newline_not_Character)
  next
    case (Cons b xs')
    with Cons.prems Cons.IH show ?thesis by simp
  qed
qed

lemma place_Nil_iff [simp]: "place x l = [] \<longleftrightarrow> l = []"
  by (cases l) simp_all

lemma place_last:
  "l \<noteq> [] \<Longrightarrow> is_Newline (last (place x l)) = is_Newline (last l)"
  by (induction l arbitrary: x) auto

lemma align_loop_chained:
  assumes "chained (fixed a)" and "fixed a = [] \<or> is_Newline (last (fixed a))"
  shows "chained (align_loop heap align xStart xEnd lineHeights a rest)"
  using assms
proof (induction rest arbitrary: a)
  case Nil
  then show ?case
    by (simp add: fixLine_place chained_append place_chained)
next
  case (Cons item rest)
  show ?case
  proof (cases "is_Newline item")
    case True
    let ?line = "fixLine align xStart xEnd (lineWidth a + item_width item)
                   (currentLine a @ [set_y (cursorY a) item])"
    have l: "is_Newline (last ?line)"
      using True by (simp add: fixLine_place place_last)
    have ne: "?line \<noteq> []"
      by (simp add: fixLine_place)
    have c: "chained (fixed a @ ?line)"
      using Cons.prems by (simp add: chained_append fixLine_place place_chained)
    show ?thesis
      unfolding align_loop_Newline [OF True]
      by (rule Cons.IH) (use c l ne in simp_all)
  next
    case False
    then have c: "is_Character item" by (rule not_Newline)
    show ?thesis
      unfolding align_loop_Character [OF c]
      by (rule Cons.IH) (use Cons.prems in simp_all)
  qed
qed

lemma lines_of_not_Nil [simp]: "lines_of parts \<noteq> []"
  by (induction parts) (auto split: list.splits)

text \<open>
  The x coordinates after the loop, line by line: the line in progress starts where the
  alignment puts a line of its final width, which is the running width so far plus the
  widened widths of the items still to come on it; every later line starts where the
  alignment puts a line of the sum of its widened widths.
\<close>

lemma align_loop_xs:
  "map item_x (align_loop heap align xStart xEnd lineHeights a rest) =
     map item_x (fixed a)
     @ cursor_positions
         (line_start align xStart xEnd
            (lineWidth a + sum_list (map (spaced_width heap) (hd (lines_of rest)))))
         (map item_width (currentLine a) @ map (spaced_width heap) (hd (lines_of rest)))
     @ concat (map (line_positions heap align xStart xEnd) (tl (lines_of rest)))"
proof (induction rest arbitrary: a)
  case Nil
  show ?case by (simp add: fixLine_place place_xs)
next
  case (Cons item rest)
  obtain l ls where ll: "lines_of rest = l # ls"
    by (cases "lines_of rest") simp_all
  show ?case
  proof (cases "is_Newline item")
    case True
    have w: "spaced_width heap item = item_width item"
      using True by (simp add: spaced_width_def Newline_not_Character)
    have "map item_x (align_loop heap align xStart xEnd lineHeights a (item # rest)) =
        (map item_x (fixed a)
         @ cursor_positions (line_start align xStart xEnd (lineWidth a + item_width item))
             (map item_width (currentLine a) @ [item_width item]))
        @ cursor_positions (line_start align xStart xEnd (sum_list (map (spaced_width heap) l)))
            (map (spaced_width heap) l)
        @ concat (map (line_positions heap align xStart xEnd) ls)"
      unfolding align_loop_Newline [OF True] Cons.IH
      by (simp add: ll fixLine_place place_xs)
    also have "\<dots> =
        map item_x (fixed a)
        @ cursor_positions (line_start align xStart xEnd (lineWidth a + item_width item))
            (map item_width (currentLine a) @ [item_width item])
        @ concat (map (line_positions heap align xStart xEnd) (l # ls))"
      by (simp add: line_positions_def)
    finally show ?thesis
      using True by (simp add: ll w)
  next
    case False
    then have c: "is_Character item" by (rule not_Newline)
    have e: "lineWidth a + spaced_width heap item + sum_list (map (spaced_width heap) l)
               = lineWidth a + sum_list (map (spaced_width heap) (item # l))"
      by simp
    have "map item_x (align_loop heap align xStart xEnd lineHeights a (item # rest)) =
        map item_x (fixed a)
        @ cursor_positions
            (line_start align xStart xEnd
               (lineWidth a + spaced_width heap item + sum_list (map (spaced_width heap) l)))
            ((map item_width (currentLine a) @ [spaced_width heap item])
               @ map (spaced_width heap) l)
        @ concat (map (line_positions heap align xStart xEnd) ls)"
      unfolding align_loop_Character [OF c] Cons.IH
      by (simp add: ll)
    also have "\<dots> =
        map item_x (fixed a)
        @ cursor_positions
            (line_start align xStart xEnd
               (lineWidth a + sum_list (map (spaced_width heap) (item # l))))
            (map item_width (currentLine a) @ map (spaced_width heap) (item # l))
        @ concat (map (line_positions heap align xStart xEnd) ls)"
      by (simp only: e) simp
    finally show ?thesis
      using False by (simp add: ll)
  qed
qed

lemma fixAlignment_xs:
  "map item_x (fixAlignment heap align xStart xEnd yStart parts) =
     concat (map (line_positions heap align xStart xEnd) (lines_of parts))"
proof -
  obtain l ls where ll: "lines_of parts = l # ls"
    by (cases "lines_of parts") simp_all
  show ?thesis
    by (simp add: fixAlignment_def align_loop_xs ll line_positions_def)
qed

text \<open>
  C2 as stated does not hold: a character that is the last (here the only) item of its
  line has its own letter spacing of 5 added to its width of 10, and the line, aligned
  to the right end 100, starts at 85.
\<close>

theorem last_character_spaced_counterexample:
  "fixAlignment exampleHeap AlignRight 0 100 0 [Character 0 0 30 10 [72] 2]
     = [Character 85 0 30 15 [72] 2]"
  by (simp add: fixAlignment_def fixLine_def exampleHeap_def exampleStyle_def Let_def)

text \<open>
  C2, amended. The alignment pass adds to the stored width of every character item, and
  to the running width of its line, the letter spacing of that item's own style, in the
  round in which the item is visited; this holds for every character item, the last one
  of a line included. The spacing after character N is thus part of the box of N: the
  item after a character starts where that (widened) box ends, and on every line the
  width from which center and right alignment compute the start of the line is the sum
  of the widened widths of the items of that line. The width of a newline item is left
  as it is.
\<close>

theorem letter_spacing_own_box:
  "map item_width (fixAlignment heap align xStart xEnd yStart parts)
     = map (spaced_width heap) parts
   \<and> chained (fixAlignment heap align xStart xEnd yStart parts)
   \<and> map item_x (fixAlignment heap align xStart xEnd yStart parts) =
       concat (map (\<lambda>l. cursor_positions
                          (line_start align xStart xEnd (sum_list (map (spaced_width heap) l)))
                          (map (spaced_width heap) l))
                 (lines_of parts))
   \<and> (single_line parts \<longrightarrow>
        map item_x (fixAlignment heap align xStart xEnd yStart parts) =
          cursor_positions
            (line_start align xStart xEnd (sum_list (map (spaced_width heap) parts)))
            (map (spaced_width heap) parts))"
proof (intro conjI impI)
  show "map item_width (fixAlignment heap align xStart xEnd yStart parts)
          = map (spaced_width heap) parts"
    by (simp add: fixAlignment_def align_loop_widths)
  show "chained (fixAlignment heap align xStart xEnd yStart parts)"
    unfolding fixAlignment_def by (rule align_loop_chained) simp_all
  have "line_positions heap align xStart xEnd =
          (\<lambda>l. cursor_positions
                  (line_start align xStart xEnd (sum_list (map (spaced_width heap) l)))
                  (map (spaced_width heap) l))"
    by (rule ext) (simp add: line_positions_def)
  then show "map item_x (fixAlignment heap align xStart xEnd yStart parts) =
       concat (map (\<lambda>l. cursor_positions
                          (line_start align xStart xEnd (sum_list (map (spaced_width heap) l)))
                          (map (spaced_width heap) l))
                 (lines_of parts))"
    using fixAlignment_xs [of heap align xStart xEnd yStart parts] by simp
  assume "single_line parts"
  then show "map item_x (fixAlignment heap align xStart xEnd yStart parts) =
          cursor_positions
            (line_start align xStart xEnd (sum_list (map (spaced_width heap) parts)))
            (map (spaced_width heap) parts)"
    by (rule single_line_xs)
qed

theorem letter_spacing_own_box_witness:
  "map item_width (fixAlignment exampleHeap AlignRight 0 100 0 spacedPair) = [15, 15]
   \<and> chained (fixAlignment exampleHeap AlignRight 0 100 0 spacedPair)
   \<and> single_line spacedPair
   \<and> map item_x (fixAlignment exampleHeap AlignRight 0 100 0 spacedPair) = [70, 85]
   \<and> lines_of spacedLines
       = [[Character 0 0 30 10 [97] 0, Newline 0 0 30 0],
          [Character 0 0 30 10 [72] 2, Character 0 0 30 10 [105] 2]]
   \<and> map item_x (fixAlignment exampleHeap AlignRight 0 100 0 spacedLines) = [90, 100, 70, 85]
   \<and> map item_width (fixAlignment exampleHeap AlignRight 0 100 0 spacedLines) = [10, 0, 15, 15]"
proof -
  have c: "single_line spacedPair" by (simp add: spacedPair_def single_line_def)
  have w: "map (spaced_width exampleHeap) spacedPair = [15, 15]"
    by (simp add: spacedPair_def spaced_width_def exampleHeap_def exampleStyle_def)
  have l: "lines_of spacedLines
       = [[Character 0 0 30 10 [97] 0, Newline 0 0 30 0],
          [Character 0 0 30 10 [72] 2, Character 0 0 30 10 [105] 2]]"
    by (simp add: spacedLines_def spacedPair_def)
  have w2: "map (spaced_width exampleHeap) spacedLines = [10, 0, 15, 15]"
    by (simp add: spacedLines_def spacedPair_def spaced_width_def exampleHeap_def exampleStyle_def)
  have v: "spaced_width exampleHeap (Character 0 0 30 10 [97] 0) = 10"
          "spaced_width exampleHeap (Newline 0 0 30 0) = 0"
          "spaced_width exampleHeap (Character 0 0 30 10 [72] 2) = 15"
          "spaced_width exampleHeap (Character 0 0 30 10 [105] 2) = 15"
    by (simp_all add: spaced_width_def exampleHeap_def exampleStyle_def)
  from letter_spacing_own_box [of exampleHeap AlignRight 0 100 0 spacedPair] c
  have a1: "map item_width (fixAlignment exampleHeap AlignRight 0 100 0 spacedPair)
              = map (spaced_width exampleHeap) spacedPair"
    and a2: "chained (fixAlignment exampleHeap AlignRight 0 100 0 spacedPair)"
    and a3: "map item_x (fixAlignment exampleHeap AlignRight 0 100 0 spacedPair) =
          cursor_positions
            (line_start AlignRight 0 100 (sum_list (map (spaced_width exampleHeap) spacedPair)))
            (map (spaced_width exampleHeap) spacedPair)"
    by blast+
  have a: "map item_width (fixAlignment exampleHeap AlignRight 0 100 0 spacedPair) = [15, 15]
   \<and> chained (fixAlignment exampleHeap AlignRight 0 100 0 spacedPair)
   \<and> single_line spacedPair
   \<and> map item_x (fixAlignment exampleHeap AlignRight 0 100 0 spacedPair) = [70, 85]"
    using a2 c unfolding a1 a3 w by (simp add: line_start_def)
  from letter_spacing_own_box [of exampleHeap AlignRight 0 100 0 spacedLines]
  have b1: "map item_width (fixAlignment exampleHeap AlignRight 0 100 0 spacedLines)
              = map (spaced_width exampleHeap) spacedLines"
    and b3: "map item_x (fixAlignment exampleHeap AlignRight 0 100 0 spacedLines) =
       concat (map (\<lambda>l. cursor_positions
                          (line_start AlignRight 0 100 (sum_list (map (spaced_width exampleHeap) l)))
                          (map (spaced_width exampleHeap) l))
                 (lines_of spacedLines))"
    by blast+
  have b: "map item_x (fixAlignment exampleHeap AlignRight 0 100 0 spacedLines) = [90, 100, 70, 85]"
    unfolding b3 l by (simp add: v line_start_def)
  have b': "map item_width (fixAlignment exampleHeap AlignRight 0 100 0 spacedLines) = [10, 0, 15, 15]"
    unfolding b1 w2 ..
  from a b b' l show ?thesis by blast
qed

section \<open>Line heights and the y coordinates\<close>

lemma line_index_0 [simp]: "line_index parts 0 = 0"
  by (simp add: line_index_def)

lemma line_index_Suc [simp]:
  "line_index (item # rest) (Suc i) = (if is_Newline item then 1 else 0) + line_index rest i"
  by (simp add: line_index_def)

lemma align_loop_ys:
  "map item_y (align_loop heap align xStart xEnd lineHeights a rest) =
     map item_y (fixed a) @ map item_y (currentLine a)
       @ map (\<lambda>i. cursorY a
                + (\<Sum>j = Suc (line a)..line a + line_index rest i. height_or_zero lineHeights j))
           [0..<length rest]"
proof (induction rest arbitrary: a)
  case Nil
  show ?case by (simp add: fixLine_place)
next
  case (Cons item rest)
  show ?case
  proof (cases "is_Newline item")
    case True
    let ?hz = "height_or_zero lineHeights"
    have e: "\<And>i. cursorY a + (\<Sum>j = Suc (line a)..line a + line_index (item # rest) (Suc i). ?hz j)
               = cursorY a + ?hz (line a + 1)
                 + (\<Sum>j = Suc (line a + 1)..line a + 1 + line_index rest i. ?hz j)"
      using True by (simp add: sum.atLeast_Suc_atMost)
    have "map item_y (align_loop heap align xStart xEnd lineHeights a (item # rest)) =
            (map item_y (fixed a) @ map item_y (currentLine a) @ [cursorY a])
            @ map (\<lambda>i. cursorY a + ?hz (line a + 1)
                      + (\<Sum>j = Suc (line a + 1)..line a + 1 + line_index rest i. ?hz j))
                [0..<length rest]"
      unfolding align_loop_Newline [OF True] Cons.IH by (simp add: fixLine_place)
    also have "\<dots> =
            (map item_y (fixed a) @ map item_y (currentLine a) @ [cursorY a])
            @ map (\<lambda>i. cursorY a
                      + (\<Sum>j = Suc (line a)..line a + line_index (item # rest) (Suc i). ?hz j))
                [0..<length rest]"
      by (simp only: e)
    also have "\<dots> =
            map item_y (fixed a) @ map item_y (currentLine a)
            @ map (\<lambda>i. cursorY a
                      + (\<Sum>j = Suc (line a)..line a + line_index (item # rest) i. ?hz j))
                [0..<length (item # rest)]"
      by (simp add: map_upt_Suc del: upt_Suc line_index_Suc)
    finally show ?thesis .
  next
    case False
    then have c: "is_Character item" by (rule not_Newline)
    show ?thesis
      unfolding align_loop_Character [OF c] Cons.IH
      using False by (simp add: map_upt_Suc del: upt_Suc)
  qed
qed

subsection \<open>The heights that the first loop records\<close>

text \<open>The running maximum at the end of each line.\<close>

lemma concat_lines_of [simp]: "concat (lines_of parts) = parts"
  by (induction parts) (auto split: list.splits)

lemma length_lines_of: "length (lines_of parts) = Suc (length (filter is_Newline parts))"
  by (induction parts) (auto split: list.splits)

lemma fold_max_Max: "fold max xs (m::real) = Max (insert m (set xs))"
  using Max.set_eq_fold [of m xs] by simp

lemma heights_loop_lines:
  "(case heights_loop (lh, acc) parts of (h, hs) \<Rightarrow> hs @ [h]) =
     acc @ map (\<lambda>j. fold max (map item_height (concat (take (Suc j) (lines_of parts)))) lh)
             [0..<length (lines_of parts)]"
proof (induction parts arbitrary: lh acc)
  case Nil
  show ?case by simp
next
  case (Cons item rest)
  obtain l ls where ll: "lines_of rest = l # ls"
    by (cases "lines_of rest") simp_all
  show ?case
  proof (cases "is_Newline item")
    case True
    show ?thesis
      using True Cons.IH [of "max lh (item_height item)" "acc @ [max lh (item_height item)]"]
      by (simp add: Let_def map_upt_Suc max.commute del: upt_Suc)
  next
    case False
    show ?thesis
      using False Cons.IH [of "max lh (item_height item)" acc] ll
      by (simp add: Let_def map_upt_Suc max.commute del: upt_Suc)
  qed
qed

lemma lineHeights_of_lines:
  "lineHeights_of parts =
     map (\<lambda>j. fold max (map item_height (concat (take (Suc j) (lines_of parts)))) 0)
       [0..<length (lines_of parts)]"
  using heights_loop_lines [of 0 "[]" parts] by (simp add: lineHeights_of_def)

lemma length_lineHeights_of: "length (lineHeights_of parts) = length (lines_of parts)"
  by (simp add: lineHeights_of_lines)

lemma lineHeights_of_nth:
  assumes "j < length (lines_of parts)"
  shows "lineHeights_of parts ! j =
           fold max (map item_height (concat (take (Suc j) (lines_of parts)))) 0"
  using assms by (simp add: lineHeights_of_lines del: upt_Suc)

lemma recorded_is_line_max:
  assumes "j < length (lines_of parts)"
    and "\<forall>e \<in> set (concat (take j (lines_of parts))). item_height e \<le> line_max (lines_of parts ! j)"
  shows "lineHeights_of parts ! j = line_max (lines_of parts ! j)"
proof -
  let ?before = "concat (take j (lines_of parts))"
  let ?l = "lines_of parts ! j"
  have t: "concat (take (Suc j) (lines_of parts)) = ?before @ ?l"
    using assms(1) by (simp add: take_Suc_conv_app_nth)
  have m: "line_max ?l = Max (insert 0 (item_height ` set ?l))"
    by (simp add: line_max_def fold_max_Max)
  have "lineHeights_of parts ! j = fold max (map item_height (?before @ ?l)) 0"
    by (simp only: lineHeights_of_nth [OF assms(1)] t)
  also have "\<dots> = Max (insert 0 (set (map item_height (?before @ ?l))))"
    by (rule fold_max_Max)
  also have "\<dots> = Max (insert 0 (item_height ` set ?before \<union> item_height ` set ?l))"
    by (simp add: image_Un)
  also have "\<dots> = Max (insert 0 (item_height ` set ?l))"
  proof (rule antisym)
    show "Max (insert 0 (item_height ` set ?before \<union> item_height ` set ?l))
            \<le> Max (insert 0 (item_height ` set ?l))"
      using assms(2) unfolding m by (subst Max_le_iff) (auto simp del: Max_le_iff)
    show "Max (insert 0 (item_height ` set ?l))
            \<le> Max (insert 0 (item_height ` set ?before \<union> item_height ` set ?l))"
      by (rule Max_mono) auto
  qed
  finally show ?thesis by (simp add: m)
qed

text \<open>The item at index \<open>i\<close> lies on the line that \<open>line_index\<close> gives.\<close>

lemma item_in_its_line:
  "i < length parts \<Longrightarrow> parts ! i \<in> set (lines_of parts ! line_index parts i)"
proof (induction parts arbitrary: i)
  case Nil
  then show ?case by simp
next
  case (Cons item rest)
  obtain l ls where ll: "lines_of rest = l # ls"
    by (cases "lines_of rest") simp_all
  show ?case
  proof (cases i)
    case 0
    then show ?thesis by (simp add: ll)
  next
    case (Suc i')
    with Cons.prems have "i' < length rest" by simp
    from Cons.IH [OF this] have IH: "rest ! i' \<in> set ((l # ls) ! line_index rest i')"
      by (simp add: ll)
    show ?thesis
    proof (cases "is_Newline item")
      case True
      with IH Suc show ?thesis by (simp add: ll)
    next
      case False
      with IH Suc show ?thesis
        by (cases "line_index rest i'") (simp_all add: ll)
    qed
  qed
qed

lemma height_or_zero_nth:
  "j < length lineHeights \<Longrightarrow> height_or_zero lineHeights j = lineHeights ! j"
  by (simp add: height_or_zero_def)

lemma line_index_le: "line_index parts i \<le> length (filter is_Newline parts)"
proof -
  have "filter is_Newline parts
          = filter is_Newline (take i parts) @ filter is_Newline (drop i parts)"
    by (metis append_take_drop_id filter_append)
  then show ?thesis
    unfolding line_index_def by (metis le_add1 length_append)
qed

lemma fixAlignment_ys:
  "map item_y (fixAlignment heap align xStart xEnd yStart parts) =
     map (\<lambda>i. yStart + (\<Sum>j = 1..line_index parts i. lineHeights_of parts ! j))
       [0..<length parts]"
proof -
  have h: "height_or_zero (lineHeights_of parts) j = lineHeights_of parts ! j"
    if "j \<le> line_index parts i" for i j
  proof (rule height_or_zero_nth)
    from that line_index_le [of parts i]
    show "j < length (lineHeights_of parts)"
      by (simp add: length_lineHeights_of length_lines_of)
  qed
  have "\<And>i. (\<Sum>j = Suc 0..line_index parts i. height_or_zero (lineHeights_of parts) j)
               = (\<Sum>j = Suc 0..line_index parts i. lineHeights_of parts ! j)"
    by (intro sum.cong refl) (auto intro: h)
  then show ?thesis
    by (simp add: fixAlignment_def align_loop_ys)
qed

text \<open>
  C3 as stated does not hold. The first line of \<open>risingLines\<close> has the height 10 (both
  of its items, the line break included, are 10 high), so the item of the second line
  should be at \<open>yStart + 10\<close>; it is at \<open>yStart + 20\<close>, the height recorded for its
  own line.
\<close>

theorem line_y_counterexample:
  "line_max (lines_of risingLines ! 0) = 10
   \<and> line_index risingLines 2 = 1
   \<and> item_y (fixAlignment exampleHeap AlignLeft 0 100 0 risingLines ! 2) = 20"
  by (simp add: risingLines_def line_max_def line_index_def fixAlignment_def fixLine_def
        lineHeights_of_def height_or_zero_def exampleHeap_def exampleStyle_def Let_def)

text \<open>
  C3, amended. After \<open>fixAlignment\<close>, every item of line k (lines are split at the
  newline items, k counted from 0) has y equal to \<open>yStart\<close> plus the sum of the heights
  that the first loop recorded for the lines 1 to k: at a line break the cursor advances
  by the height recorded for the line that begins, not for the line that ends. The first
  loop records one height per line; the height recorded for a line is the maximum item
  height of that line (counted from 0, and including the height of its newline item)
  whenever no item of an earlier line is higher than that. A line that is a lone
  newline has its own recorded height, which is added like any other. The line of the
  item at index \<open>i\<close> is \<open>line_index parts i\<close>, see \<open>item_in_its_line\<close>.
\<close>

theorem line_y_by_recorded_heights:
  "map item_y (fixAlignment heap align xStart xEnd yStart parts) =
     map (\<lambda>i. yStart + (\<Sum>j = 1..line_index parts i. lineHeights_of parts ! j))
       [0..<length parts]
   \<and> length (lineHeights_of parts) = length (lines_of parts)
   \<and> (\<forall>j < length (lines_of parts).
        (\<forall>e \<in> set (concat (take j (lines_of parts))).
            item_height e \<le> line_max (lines_of parts ! j))
        \<longrightarrow> lineHeights_of parts ! j = line_max (lines_of parts ! j))"
  using fixAlignment_ys [of heap align xStart xEnd yStart parts]
    length_lineHeights_of [of parts] recorded_is_line_max [of _ parts]
  by blast

theorem line_y_by_recorded_heights_witness:
  "map item_y (fixAlignment exampleHeap AlignLeft 0 100 0 steppedLines) = [0, 0, 20, 50]
   \<and> length (lineHeights_of steppedLines) = 3
   \<and> lineHeights_of steppedLines ! 1 = line_max [Newline 0 0 20 0]
   \<and> line_max [Newline 0 0 20 0] = 20"
proof -
  have l: "lines_of steppedLines =
             [[Character 0 0 10 10 [72] 0, Newline 0 0 10 0], [Newline 0 0 20 0],
              [Character 0 0 30 10 [105] 0]]"
    by (simp add: steppedLines_def)
  have h: "lineHeights_of steppedLines = [10, 20, 30]"
    by (simp add: steppedLines_def lineHeights_of_def Let_def)
  have i: "map (line_index steppedLines) [0, 1, 2, 3] = [0, 0, 1, 2]"
    by (simp add: steppedLines_def line_index_def)
  have u: "[0..<length steppedLines] = [0, 1, 2, 3]"
    by (simp add: steppedLines_def upt_rec)
  have s: "(\<Sum>j = 1..(2::nat). [10, 20, 30::real] ! j) = 50"
          "(\<Sum>j = 1..(1::nat). [10, 20, 30::real] ! j) = 20"
    by (simp_all add: numeral_2_eq_2)
  have m: "line_max [Newline 0 0 20 0] = 20"
    by (simp add: line_max_def)
  have c: "\<forall>e \<in> set (concat (take 1 (lines_of steppedLines))).
             item_height e \<le> line_max (lines_of steppedLines ! 1)"
    by (simp add: l m)
  from line_y_by_recorded_heights [of exampleHeap AlignLeft 0 100 0 steppedLines]
  have a: "map item_y (fixAlignment exampleHeap AlignLeft 0 100 0 steppedLines) =
             map (\<lambda>i. 0 + (\<Sum>j = 1..line_index steppedLines i. lineHeights_of steppedLines ! j))
               [0..<length steppedLines]"
    and b: "length (lineHeights_of steppedLines) = length (lines_of steppedLines)"
    and d: "\<forall>j < length (lines_of steppedLines).
        (\<forall>e \<in> set (concat (take j (lines_of steppedLines))).
            item_height e \<le> line_max (lines_of steppedLines ! j))
        \<longrightarrow> lineHeights_of steppedLines ! j = line_max (lines_of steppedLines ! j)"
    by blast+
  from d c have e: "lineHeights_of steppedLines ! 1 = line_max (lines_of steppedLines ! 1)"
    by (simp add: l)
  have "map item_y (fixAlignment exampleHeap AlignLeft 0 100 0 steppedLines) = [0, 0, 20, 50]"
    using i s unfolding a u h by simp
  with b e m show ?thesis by (simp add: l)
qed

section \<open>Properties of quoting\<close>

text \<open>One round of the first loop of \<open>quote\<close>, by the case it takes.\<close>

lemma quote_loop_end:
  "\<not> i < length parts \<Longrightarrow> quote_loop P i lastChar quoted (w, parts) = ((lastChar, quoted), w, parts)"
  by (subst quote_loop.simps) simp

lemma quote_loop_skip:
  "i < length parts \<Longrightarrow> \<not> visible (parts ! i) \<Longrightarrow>
     quote_loop P i lastChar quoted (w, parts) = quote_loop P (Suc i) lastChar quoted (w, parts)"
  by (subst quote_loop.simps) (auto simp: visible_def)

lemma quote_loop_seen:
  "i < length parts \<Longrightarrow> visible (parts ! i) \<Longrightarrow>
     quote_loop P i lastChar True (w, parts) = quote_loop P (Suc i) (int i) True (w, parts)"
  by (subst quote_loop.simps) (auto simp: visible_def)

lemma quote_loop_first:
  "i < length parts \<Longrightarrow> visible (parts ! i) \<Longrightarrow>
     quote_loop P i lastChar False (w, parts) =
       quote_loop P (Suc i) (int i) True
         (snd (measureWidth P w (item_style (parts ! i)) quotationMark),
          splice_in i (quotationMarkFor P w (parts ! i)) parts)"
  by (subst quote_loop.simps) (auto simp: visible_def quotationMarkFor_def)

text \<open>Over items that are all skipped, the loop changes nothing.\<close>

lemma quote_loop_invisible:
  assumes "list_all (\<lambda>p. \<not> visible p) rest"
  shows "quote_loop P (length pre) lastChar quoted (w, pre @ rest)
           = ((lastChar, quoted), w, pre @ rest)"
  using assms
proof (induction rest arbitrary: pre)
  case Nil
  show ?case by (simp add: quote_loop_end)
next
  case (Cons x rest)
  have "quote_loop P (length pre) lastChar quoted (w, pre @ x # rest)
          = quote_loop P (length (pre @ [x])) lastChar quoted (w, (pre @ [x]) @ rest)"
    using Cons.prems by (subst quote_loop_skip) simp_all
  also have "\<dots> = ((lastChar, quoted), w, (pre @ [x]) @ rest)"
    using Cons.prems by (intro Cons.IH) simp
  finally show ?case by simp
qed

text \<open>Once the opening mark is set, the loop only looks for the last visible item.\<close>

lemma quote_loop_last:
  assumes "visible l" and "list_all (\<lambda>p. \<not> visible p) post"
  shows "quote_loop P (length pre) lastChar True (w, pre @ mid @ l # post)
           = ((int (length pre + length mid), True), w, pre @ mid @ l # post)"
  using assms
proof (induction mid arbitrary: pre lastChar)
  case Nil
  have "quote_loop P (length pre) lastChar True (w, pre @ l # post)
          = quote_loop P (length (pre @ [l])) (int (length pre)) True (w, (pre @ [l]) @ post)"
    using Nil.prems by (subst quote_loop_seen) simp_all
  also have "\<dots> = ((int (length pre), True), w, (pre @ [l]) @ post)"
    using Nil.prems by (intro quote_loop_invisible) simp
  finally show ?case by simp
next
  case (Cons x mid)
  have "\<exists>lc. quote_loop P (length pre) lastChar True (w, pre @ (x # mid) @ l # post)
          = quote_loop P (length (pre @ [x])) lc True (w, (pre @ [x]) @ mid @ l # post)"
  proof (cases "visible x")
    case True
    then have "quote_loop P (length pre) lastChar True (w, pre @ (x # mid) @ l # post)
          = quote_loop P (Suc (length pre)) (int (length pre)) True (w, pre @ (x # mid) @ l # post)"
      by (subst quote_loop_seen) simp_all
    then show ?thesis by auto
  next
    case False
    then have "quote_loop P (length pre) lastChar True (w, pre @ (x # mid) @ l # post)
          = quote_loop P (Suc (length pre)) lastChar True (w, pre @ (x # mid) @ l # post)"
      by (subst quote_loop_skip) simp_all
    then show ?thesis by auto
  qed
  then obtain lc where
    "quote_loop P (length pre) lastChar True (w, pre @ (x # mid) @ l # post)
          = quote_loop P (length (pre @ [x])) lc True (w, (pre @ [x]) @ mid @ l # post)" ..
  also have "\<dots> = ((int (length (pre @ [x]) + length mid), True), w, (pre @ [x]) @ mid @ l # post)"
    using Cons.prems by (intro Cons.IH)
  finally show ?case by simp
qed

text \<open>Up to the first visible item nothing happens; there the opening mark is set.\<close>

lemma quote_loop_open:
  assumes "list_all (\<lambda>p. \<not> visible p) ws" and "visible f"
  shows "quote_loop P (length pre) lastChar False (w, pre @ ws @ f # tail)
           = quote_loop P (Suc (length pre + length ws)) (int (length pre + length ws)) True
               (snd (measureWidth P w (item_style f) quotationMark),
                pre @ ws @ quotationMarkFor P w f # f # tail)"
  using assms
proof (induction ws arbitrary: pre)
  case Nil
  have "splice_in (length pre) (quotationMarkFor P w f) (pre @ f # tail)
          = pre @ quotationMarkFor P w f # f # tail"
    by (simp add: splice_in_def)
  with Nil.prems show ?case
    by (subst quote_loop_first) simp_all
next
  case (Cons x ws)
  have "quote_loop P (length pre) lastChar False (w, pre @ (x # ws) @ f # tail)
          = quote_loop P (length (pre @ [x])) lastChar False (w, (pre @ [x]) @ ws @ f # tail)"
    using Cons.prems by (subst quote_loop_skip) simp_all
  also have "\<dots> = quote_loop P (Suc (length (pre @ [x]) + length ws))
                      (int (length (pre @ [x]) + length ws)) True
               (snd (measureWidth P w (item_style f) quotationMark),
                (pre @ [x]) @ ws @ quotationMarkFor P w f # f # tail)"
    using Cons.prems by (intro Cons.IH) simp_all
  finally show ?case by simp
qed

lemma quote_nothing_visible:
  assumes "list_all (\<lambda>p. \<not> visible p) parts"
  shows "quote P (w, parts) = (w, parts)"
  using quote_loop_invisible [OF assms, of P "[]" "- 1" False w]
  by (simp add: quote_def)

lemma quote_visible:
  assumes "list_all (\<lambda>p. \<not> visible p) ws" and "list_all (\<lambda>p. \<not> visible p) post"
    and "core \<noteq> []" and "visible (hd core)" and "visible (last core)"
  shows "quote P (w, ws @ core @ post) =
     (snd (measureWidth P (snd (measureWidth P w (item_style (hd core)) quotationMark))
             (item_style (last core)) quotationMark),
      ws @ [quotationMarkFor P w (hd core)] @ core
         @ [quotationMarkFor P (snd (measureWidth P w (item_style (hd core)) quotationMark))
              (last core)]
         @ post)"
proof -
  let ?w1 = "snd (measureWidth P w (item_style (hd core)) quotationMark)"
  let ?q1 = "quotationMarkFor P w (hd core)"
  obtain f tail where c: "core = f # tail" using assms(3) by (cases core) auto
  obtain mid l where m: "core = mid @ [l]" using assms(3) by (metis append_butlast_last_id)
  have vf: "visible f" using assms(4) c by simp
  have vl: "visible l" using assms(5) m by simp
  have "quote_loop P 0 (- 1) False (w, ws @ core @ post)
          = quote_loop P (length ([]::RenderItem list)) (- 1) False (w, [] @ ws @ f # (tail @ post))"
    by (simp add: c)
  also have "\<dots> = quote_loop P (Suc (length ws)) (int (length ws)) True
                      (?w1, ws @ ?q1 # f # (tail @ post))"
    using quote_loop_open [OF assms(1) vf, of P "[]" "- 1" w "tail @ post"] c by simp
  also have "\<dots> = quote_loop P (length (ws @ [?q1])) (int (length ws)) True
                      (?w1, (ws @ [?q1]) @ mid @ l # post)"
  proof -
    have "f # tail @ post = core @ post" using c by simp
    also have "\<dots> = mid @ l # post" using m by simp
    finally have e: "f # tail @ post = mid @ l # post" .
    show ?thesis by (subst e) simp
  qed
  also have "\<dots> = ((int (length (ws @ [?q1]) + length mid), True), ?w1,
                      (ws @ [?q1]) @ mid @ l # post)"
    by (rule quote_loop_last [OF vl assms(2)])
  finally have loop: "quote_loop P 0 (- 1) False (w, ws @ core @ post)
          = ((int (Suc (length ws + length mid)), True), ?w1, ws @ ?q1 # mid @ l # post)"
    by simp
  define k where "k = Suc (length ws + length mid)"
  define parts' where "parts' = ws @ ?q1 # mid @ l # post"
  have nth: "parts' ! k = l"
    by (simp add: parts'_def k_def nth_append)
  have sp: "splice_in (Suc k) q parts' = ws @ ?q1 # mid @ l # q # post" for q
    by (simp add: splice_in_def parts'_def k_def)
  have la: "last core = l" using m by simp
  have "quote P (w, ws @ core @ post) =
          (snd (measureWidth P ?w1 (item_style (parts' ! k)) quotationMark),
           splice_in (Suc k) (quotationMarkFor P ?w1 (parts' ! k)) parts')"
    unfolding quote_def loop k_def [symmetric] parts'_def [symmetric]
    by (simp add: quotationMarkFor_def split_beta Let_def)
  also have "\<dots> = (snd (measureWidth P ?w1 (item_style l) quotationMark),
           ws @ ?q1 # mid @ l # quotationMarkFor P ?w1 l # post)"
    by (simp only: nth sp)
  also have "ws @ ?q1 # mid @ l # quotationMarkFor P ?w1 l # post
               = ws @ [?q1] @ core @ [quotationMarkFor P ?w1 l] @ post"
    by (simp add: m)
  finally show ?thesis by (simp only: la)
qed

text \<open>Items with a visible one split at the first and the last visible item.\<close>

lemma visible_span:
  assumes "\<not> list_all (\<lambda>p. \<not> visible p) parts"
  shows "\<exists>ws core post. parts = ws @ core @ post
           \<and> list_all (\<lambda>p. \<not> visible p) ws \<and> list_all (\<lambda>p. \<not> visible p) post
           \<and> core \<noteq> [] \<and> visible (hd core) \<and> visible (last core)"
proof -
  from assms have "\<exists>p \<in> set parts. visible p" by (simp add: list_all_iff)
  from split_list_first_prop [OF this] obtain ws f rest where
    f: "parts = ws @ f # rest" "visible f" "\<forall>p \<in> set ws. \<not> visible p"
    by blast
  have "\<exists>p \<in> set (f # rest). visible p" using f(2) by simp
  from split_list_last_prop [OF this] obtain mid l post where
    l: "f # rest = mid @ l # post" "visible l" "\<forall>p \<in> set post. \<not> visible p"
    by blast
  have h: "hd (mid @ [l]) = f"
    using l(1) by (cases mid) simp_all
  have "parts = ws @ (mid @ [l]) @ post" using f(1) l(1) by simp
  moreover have "list_all (\<lambda>p. \<not> visible p) ws" "list_all (\<lambda>p. \<not> visible p) post"
    using f(3) l(3) by (simp_all add: list_all_iff)
  moreover have "mid @ [l] \<noteq> []" "visible (hd (mid @ [l]))" "visible (last (mid @ [l]))"
    using h f(2) l(2) by simp_all
  ultimately show ?thesis by blast
qed

text \<open>
  C6. When no item is a character that is not white space, \<open>quote\<close> leaves the items
  (and the module state) as they are. Otherwise, with the items split into the items
  before the first such character, the span from the first to the last such character,
  and the items after it, \<open>quote\<close> puts one quotation mark immediately before the
  first and one immediately after the last of them and changes nothing else, so the
  number of items grows by exactly 2; each mark is a character item at \<open>x = y = 0\<close>
  with the style and the height of the character next to it and a width measured for
  that style.
\<close>

theorem quote_marks:
  "(list_all (\<lambda>p. \<not> visible p) parts \<longrightarrow> quote P (w, parts) = (w, parts))
   \<and> (list_all (\<lambda>p. \<not> visible p) ws \<and> list_all (\<lambda>p. \<not> visible p) post
        \<and> core \<noteq> [] \<and> visible (hd core) \<and> visible (last core) \<longrightarrow>
        snd (quote P (w, ws @ core @ post)) =
          ws @ [Character 0 0 (item_height (hd core))
                  (fst (measureWidth P w (item_style (hd core)) quotationMark))
                  quotationMark (item_style (hd core))]
             @ core
             @ [Character 0 0 (item_height (last core))
                  (fst (measureWidth P
                         (snd (measureWidth P w (item_style (hd core)) quotationMark))
                         (item_style (last core)) quotationMark))
                  quotationMark (item_style (last core))]
             @ post
        \<and> length (snd (quote P (w, ws @ core @ post))) = length (ws @ core @ post) + 2)
   \<and> (\<not> list_all (\<lambda>p. \<not> visible p) parts \<longrightarrow>
        length (snd (quote P (w, parts))) = length parts + 2)"
proof (intro conjI impI)
  assume "list_all (\<lambda>p. \<not> visible p) parts"
  then show "quote P (w, parts) = (w, parts)" by (rule quote_nothing_visible)
next
  assume a: "list_all (\<lambda>p. \<not> visible p) ws \<and> list_all (\<lambda>p. \<not> visible p) post
        \<and> core \<noteq> [] \<and> visible (hd core) \<and> visible (last core)"
  then have q: "quote P (w, ws @ core @ post) =
     (snd (measureWidth P (snd (measureWidth P w (item_style (hd core)) quotationMark))
             (item_style (last core)) quotationMark),
      ws @ [quotationMarkFor P w (hd core)] @ core
         @ [quotationMarkFor P (snd (measureWidth P w (item_style (hd core)) quotationMark))
              (last core)]
         @ post)"
    by (intro quote_visible) simp_all
  show "snd (quote P (w, ws @ core @ post)) =
          ws @ [Character 0 0 (item_height (hd core))
                  (fst (measureWidth P w (item_style (hd core)) quotationMark))
                  quotationMark (item_style (hd core))]
             @ core
             @ [Character 0 0 (item_height (last core))
                  (fst (measureWidth P
                         (snd (measureWidth P w (item_style (hd core)) quotationMark))
                         (item_style (last core)) quotationMark))
                  quotationMark (item_style (last core))]
             @ post"
    unfolding q by (simp add: quotationMarkFor_def)
  show "length (snd (quote P (w, ws @ core @ post))) = length (ws @ core @ post) + 2"
    unfolding q by simp
next
  assume "\<not> list_all (\<lambda>p. \<not> visible p) parts"
  from visible_span [OF this] obtain ws' core' post' where
    s: "parts = ws' @ core' @ post'"
       "list_all (\<lambda>p. \<not> visible p) ws'" "list_all (\<lambda>p. \<not> visible p) post'"
       "core' \<noteq> []" "visible (hd core')" "visible (last core')"
    by blast
  show "length (snd (quote P (w, parts))) = length parts + 2"
    unfolding s(1) quote_visible [OF s(2-6)] by simp
qed

theorem quote_marks_witness:
  "quote examplePlatform (exampleWorld, [Character 0 0 30 10 [32] 0, Newline 0 0 30 0])
     = (exampleWorld, [Character 0 0 30 10 [32] 0, Newline 0 0 30 0])
   \<and> snd (quote examplePlatform (exampleWorld, quotedSample)) =
       [Character 0 0 30 10 [32] 0, Newline 0 0 30 0,
        Character 0 0 60 10 [34] 1, Character 0 0 60 10 [72] 1,
        Character 0 0 30 10 [32] 0, Character 0 0 30 10 [105] 2,
        Character 0 0 30 10 [34] 2, Character 0 0 30 10 [32] 0]
   \<and> length (snd (quote examplePlatform (exampleWorld, quotedSample))) = length quotedSample + 2"
proof -
  let ?ws = "[Character 0 0 30 10 [32] 0, Newline 0 0 30 0]"
  let ?core = "[Character 0 0 60 10 [72] 1, Character 0 0 30 10 [32] 0, Character 0 0 30 10 [105] 2]"
  let ?post = "[Character 0 0 30 10 [32] 0]"
  have s: "quotedSample = ?ws @ ?core @ ?post" by (simp add: quotedSample_def)
  have v: "list_all (\<lambda>p. \<not> visible p) ?ws" "list_all (\<lambda>p. \<not> visible p) ?post"
    "?core \<noteq> []" "visible (hd ?core)" "visible (last ?core)"
    by (simp_all add: visible_def matches_whitespace_def is_whitespace_def)
  from quote_marks [of ?ws examplePlatform exampleWorld ?ws ?post ?core] v
  have a: "quote examplePlatform (exampleWorld, ?ws) = (exampleWorld, ?ws)"
    and b: "snd (quote examplePlatform (exampleWorld, ?ws @ ?core @ ?post)) =
          ?ws @ [Character 0 0 (item_height (hd ?core))
                  (fst (measureWidth examplePlatform exampleWorld (item_style (hd ?core)) quotationMark))
                  quotationMark (item_style (hd ?core))]
             @ ?core
             @ [Character 0 0 (item_height (last ?core))
                  (fst (measureWidth examplePlatform
                         (snd (measureWidth examplePlatform exampleWorld (item_style (hd ?core)) quotationMark))
                         (item_style (last ?core)) quotationMark))
                  quotationMark (item_style (last ?core))]
             @ ?post"
    and c: "length (snd (quote examplePlatform (exampleWorld, ?ws @ ?core @ ?post)))
              = length (?ws @ ?core @ ?post) + 2"
    by blast+
  show ?thesis
    unfolding s using a b c
    by (simp add: measureWidth_def examplePlatform_def quotationMark_def Let_def)
qed

section \<open>The stacks are never popped when empty\<close>

lemma step_well_stacked:
  assumes "well_stacked s"
  shows "step P (w, s) token \<noteq> Inl EmptyStack"
    and "step P (w, s) token = Inr (w', s') \<Longrightarrow> well_stacked s'"
proof -
  show "step P (w, s) token \<noteq> Inl EmptyStack"
    using assms
    by (cases token)
       (auto simp: well_stacked_def split: option.splits prod.splits list.splits if_splits)
  show "step P (w, s) token = Inr (w', s') \<Longrightarrow> well_stacked s'"
    using assms
    by (cases token)
       (auto simp: well_stacked_def split: option.splits prod.splits list.splits if_splits)
qed

lemma token_loop_well_stacked:
  assumes "well_stacked s"
  shows "token_loop P (w, s) tokens \<noteq> Inl EmptyStack"
  using assms
proof (induction tokens arbitrary: w s)
  case Nil
  show ?case by simp
next
  case (Cons token tokens)
  show ?case
  proof (cases "step P (w, s) token")
    case (Inl e)
    with step_well_stacked(1) [OF Cons.prems, of P w token] show ?thesis by simp
  next
    case (Inr ws)
    obtain w' s' where ws: "ws = (w', s')" by (cases ws)
    from step_well_stacked(2) [OF Cons.prems, of P w token w' s'] Inr ws
    have "well_stacked s'" by simp
    from Cons.IH [OF this, of w'] Inr ws show ?thesis by simp
  qed
qed

lemma getRenderParts_no_EmptyStack:
  "getRenderParts P w tokens baseStyle \<noteq> Inl EmptyStack"
proof -
  obtain h w0 where m: "measureHeight P w baseStyle = (h, w0)"
    by (cases "measureHeight P w baseStyle")
  have "well_stacked (initial_interp h baseStyle)"
    by (simp add: well_stacked_def initial_interp_def)
  from token_loop_well_stacked [OF this, of P w0 tokens] m
  show ?thesis
    by (auto simp: getRenderParts_def split: sum.splits)
qed

end
